theory Spec2Isabelle
  imports Main
begin

section \<open>Data model\<close>

text \<open>
  The stylesheet tree is owned by the parser. A node is addressed by a number (its
  identity), and the fields the core reads or writes are kept in one record per node.
  The type of a node is fixed when the parser builds it; it is kept in the state, apart
  from the fields a callback may rewrite.
  \<open>raws_value_raw\<close> is \<open>None\<close> when \<open>node.raws.value\<close> is undefined and \<open>Some r\<close> when
  \<open>node.raws.value.raw\<close> is \<open>r\<close>; \<open>raws_important\<close> likewise for \<open>node.raws.important\<close>.
\<close>

datatype node_type = Root | Rule | AtRule | Decl | Comment

record node =
  selector :: string
  params :: string
  d_prop :: string
  d_value :: string
  important :: bool
  raws_between :: string
  raws_value_raw :: "string option"
  raws_important :: "string option"
  parent :: "nat option"

text \<open>
  The metadata of one directive form of a comment: its name, its argument text, whether
  the form carries a begin marker, whether it carries an end marker, and the blacklist
  flag the comment handler sets.
\<close>

record metadata =
  m_name :: string
  m_param :: string
  m_begin :: bool
  m_end :: bool
  m_blacklist :: bool

text \<open>
  Plugin callbacks are trusted code. A control callback receives the visited node (its
  type and its fields) and the metadata; it answers with a boolean and may have
  rewritten the fields of the node. The end
  handler is optional in the data model: \<open>None\<close> stands for a directive object without
  an \<open>end\<close> member, and calling it is the JavaScript TypeError.
\<close>

type_synonym callback = "node_type \<Rightarrow> node \<Rightarrow> metadata \<Rightarrow> bool \<times> node"

record control_directive =
  expect :: "node_type \<Rightarrow> bool"
  expect_self :: bool
  cd_begin :: callback
  cd_end :: "callback option"

text \<open>
  \<open>current.directive\<close> is compared with \<open>null\<close> by identity and tested for truthiness, so
  the three JavaScript values are kept apart.
\<close>

datatype directive_ref = Null | Undefined | Resolved control_directive

record entry =
  metadata :: metadata
  directive :: directive_ref
  source :: nat
  preserve :: "bool option"

record value_directive =
  vd_name :: string
  vd_action :: "node \<Rightarrow> bool \<times> node"

text \<open>
  \<open>pr_expr\<close> is the test \<open>s.match(processor.expr)\<close> as a predicate on \<open>s\<close>. \<open>pr_name\<close> labels
  the processor in the call log.
\<close>

record processor =
  pr_name :: string
  pr_expr :: "string \<Rightarrow> bool"
  pr_action :: "string \<Rightarrow> string \<Rightarrow> string \<times> string"

record plugin =
  pl_name :: string
  control :: "string \<rightharpoonup> control_directive"
  value_directives :: "value_directive list"
  processors :: "processor list"

datatype process_urls = Urls_flag bool | Urls_object bool

record config =
  plugins :: "plugin list"
  blacklist :: "string \<rightharpoonup> (string \<rightharpoonup> bool)"
  aliases :: "string \<rightharpoonup> string"
  clean :: bool
  autoRename :: bool
  autoRenameStrict :: bool
  processEnv :: bool
  processUrls :: process_urls

text \<open>
  The functions of \<open>util.js\<close> that the core calls are parameters of the model.
  \<open>regexDirective u name txt\<close> is \<open>util.regexDirective(name).test(txt)\<close>;
  \<open>applyStringMap u s url\<close> is \<open>util.applyStringMap(s, url)\<close>, with \<open>False\<close> for the
  omitted second argument; \<open>isLastOfType u i\<close> is \<open>util.isLastOfType\<close> of node \<open>i\<close>.
\<close>

record comment_state =
  cs_value :: string
  cs_saved :: "string list"

record util =
  regexDirective :: "string \<Rightarrow> string \<Rightarrow> bool"
  trimDirective :: "string \<Rightarrow> string"
  saveComments :: "string \<Rightarrow> comment_state"
  restoreComments :: "comment_state \<Rightarrow> string"
  swap :: "string \<Rightarrow> string \<Rightarrow> string \<Rightarrow> string"
  applyStringMap :: "string \<Rightarrow> bool \<Rightarrow> string"
  isLastOfType :: "nat \<Rightarrow> bool"

text \<open>
  Everything the run produces beside the tree is one chronological log: the warnings of
  \<open>result.warn\<close> (with the node they are attached to) and, for the claims about which
  callback runs, one entry per callback invocation: the name of the directive or
  processor, the node it was called on and, for a boolean callback, its answer.
\<close>

datatype event =
    Warn_blacklisted string string nat
  | Warn_unsupported string nat
  | Warn_unclosed string nat
  | Warn_rename_skipped nat
  | Call_begin string nat bool
  | Call_end string nat bool
  | Call_action string string nat bool
  | Call_processor string string nat
  | Call_pre nat
  | Call_post nat

datatype fault = Not_a_function | Null_dereference

text \<open>
  The state of one run: the tree (types and fields), the \<open>processed\<close> mark of each node (the
  symbol-keyed property), the directive stack (outermost entry first), the closure
  variables \<open>flipped\<close> and \<open>toBeRenamed\<close> (an object, kept as an association list in
  insertion order), and the log.
\<close>

record state =
  ntypes :: "nat \<Rightarrow> node_type"
  nodes :: "nat \<Rightarrow> node"
  processed :: "nat \<Rightarrow> bool"
  stack :: "entry list"
  flipped :: nat
  toBeRenamed :: "(string \<times> nat) list"
  log :: "event list"

section \<open>The directive stack\<close>

text \<open>
  Modelled from the spec: \<open>state.walk\<close> and \<open>state.pop\<close> are defined in \<open>state.js\<close>, a
  file of the repository that is not embedded here. Following the specification of the node gate and
  of the end of the document, \<open>walk\<close> presents every open entry to the callback in stack
  order, outermost first, and an entry leaves the stack exactly when the callback pops
  it. The callback answers whether it popped the entry it was given; \<open>walk\<close> returns the
  entries that stay. A fault raised by the callback ends the walk.
\<close>

fun walk :: "(entry \<Rightarrow> 's \<Rightarrow> fault + (bool \<times> 's)) \<Rightarrow> entry list \<Rightarrow> 's \<Rightarrow> fault + (entry list \<times> 's)" where
  "walk cb [] s = Inr ([], s)"
| "walk cb (cur # rest) s =
     (case cb cur s of
        Inl f \<Rightarrow> Inl f
      | Inr (popped, s1) \<Rightarrow>
          (case walk cb rest s1 of
             Inl f \<Rightarrow> Inl f
           | Inr (kept, s2) \<Rightarrow> Inr (if popped then kept else cur # kept, s2)))"

section \<open>The node gate\<close>

text \<open>
  The callback that \<open>shouldProcess\<close> hands to \<open>state.walk\<close>. Its boolean result tells
  whether \<open>state.pop(current)\<close> was called.
\<close>

definition gate_step :: "nat \<Rightarrow> entry \<Rightarrow> state \<Rightarrow> fault + (bool \<times> state)" where
  "gate_step i cur s =
     (if m_blacklist (metadata cur) then Inr (False, s)
      else
        (case directive cur of
           Null \<Rightarrow> Inl Null_dereference
         | Undefined \<Rightarrow> Inl Null_dereference
         | Resolved d \<Rightarrow>
             if \<not> expect d (ntypes s i) then Inr (False, s)
             else
               (let (b, n1) = cd_begin d (ntypes s i) (nodes s i) (metadata cur);
                    s1 = s\<lparr>nodes := (nodes s)(i := n1),
                           processed := (if b then (processed s)(i := False) else processed s),
                           log := log s @ [Call_begin (m_name (metadata cur)) i b]\<rparr>
                in if m_end (metadata cur) then
                     (case cd_end d of
                        None \<Rightarrow> Inl Not_a_function
                      | Some f \<Rightarrow>
                          (let (e, n2) = f (ntypes s1 i) (nodes s1 i) (metadata cur);
                               s2 = s1\<lparr>nodes := (nodes s1)(i := n2),
                                       log := log s1 @ [Call_end (m_name (metadata cur)) i e]\<rparr>
                           in Inr (e, s2)))
                   else Inr (False, s1))))"

definition shouldProcess :: "nat \<Rightarrow> state \<Rightarrow> fault + (bool \<times> state)" where
  "shouldProcess i s =
     (if processed s i then Inr (False, s)
      else
        (let s0 = s\<lparr>processed := (processed s)(i := True)\<rparr>
         in case walk (gate_step i) (stack s0) s0 of
              Inl f \<Rightarrow> Inl f
            | Inr (kept, s1) \<Rightarrow>
                (let s2 = s1\<lparr>stack := kept\<rparr> in Inr (processed s2 i, s2))))"

section \<open>Document start, rules and at-rules\<close>

definition Once :: "nat \<Rightarrow> state \<Rightarrow> fault + state" where
  "Once root s =
     (let s0 = s\<lparr>log := log s @ [Call_pre root]\<rparr>
      in case shouldProcess root s0 of
           Inl f \<Rightarrow> Inl f
         | Inr (ok, s1) \<Rightarrow> Inr s1)"

definition Rule_handler :: "nat \<Rightarrow> state \<Rightarrow> fault + state" where
  "Rule_handler i s =
     (case shouldProcess i s of
        Inl f \<Rightarrow> Inl f
      | Inr (ok, s1) \<Rightarrow> Inr (if ok then s1\<lparr>flipped := 0\<rparr> else s1))"

fun urls_in_atrules :: "process_urls \<Rightarrow> bool" where
  "urls_in_atrules (Urls_flag b) = b"
| "urls_in_atrules (Urls_object atrule) = atrule"

definition AtRule_handler :: "util \<Rightarrow> config \<Rightarrow> nat \<Rightarrow> state \<Rightarrow> fault + state" where
  "AtRule_handler u cfg i s =
     (case shouldProcess i s of
        Inl f \<Rightarrow> Inl f
      | Inr (ok, s1) \<Rightarrow>
          Inr (if ok \<and> urls_in_atrules (processUrls cfg)
               then s1\<lparr>nodes := (nodes s1)(i := (nodes s1 i)\<lparr>params := applyStringMap u (params (nodes s1 i)) True\<rparr>)\<rparr>
               else s1))"

section \<open>The comment handler\<close>

text \<open>
  \<open>blacklisted cfg p name\<close> is the test
  \<open>blacklist && blacklist[current.metadata.name] === true\<close> for plugin \<open>p\<close>.
  \<open>control_lookup p name\<close> is \<open>plugin.directives.control[name]\<close>, read over the own
  keys of the table: for a name that the table inherits from \<open>Object.prototype\<close> (such as
  \<open>toString\<close>) the lookup of the source finds a function that is no directive; such names
  are outside this model.
\<close>

definition blacklisted :: "config \<Rightarrow> plugin \<Rightarrow> string \<Rightarrow> bool" where
  "blacklisted cfg p name =
     (case blacklist cfg (pl_name p) of
        None \<Rightarrow> False
      | Some tbl \<Rightarrow> tbl name = Some True)"

definition control_lookup :: "plugin \<Rightarrow> string \<Rightarrow> directive_ref" where
  "control_lookup p name = (case control p name of None \<Rightarrow> Undefined | Some d \<Rightarrow> Resolved d)"

text \<open>
  The loop over the plugins that resolves a new directive name (the body of
  \<open>if (current.directive === null)\<close> after \<open>preserve\<close> is set). It returns the updated
  entry and the warnings to append.
\<close>

fun resolve :: "config \<Rightarrow> plugin list \<Rightarrow> entry \<Rightarrow> event list \<Rightarrow> entry \<times> event list" where
  "resolve cfg [] cur ws = (cur, ws)"
| "resolve cfg (p # ps) cur ws =
     (if blacklisted cfg p (m_name (metadata cur)) then
        (let cur1 = cur\<lparr>metadata := (metadata cur)\<lparr>m_blacklist := True\<rparr>\<rparr>
         in if m_end (metadata cur1) then (cur1, ws)
            else if m_begin (metadata cur1)
              then (cur1, ws @ [Warn_blacklisted (pl_name p) (m_name (metadata cur1)) (source cur1)])
              else (cur1, ws))
      else
        (let cur1 = cur\<lparr>directive := control_lookup p (m_name (metadata cur))\<rparr>
         in case directive cur1 of
              Resolved d \<Rightarrow> (cur1, ws)
            | Null \<Rightarrow> resolve cfg ps cur1 ws
            | Undefined \<Rightarrow> resolve cfg ps cur1 ws))"

text \<open>
  What the callback handed to \<open>state.parse\<close> reports: its return value, whether it
  called \<open>state.pop(current)\<close>, the entry \<open>current\<close> as it leaves it, and the state.
  \<open>state.parse\<close> itself belongs to \<open>state.js\<close>; it decides what the return value and the
  pop mean for the stack.
\<close>

record callback_result =
  returned :: bool
  popped_current :: bool
  current :: entry
  after :: state

text \<open>
  The callback is two blocks in a row: \<open>resolve_current\<close> is the block under
  \<open>if (current.directive === null)\<close>, with the warnings it emits; \<open>dispatch\<close> is the
  rest, from \<open>if (current.directive)\<close> on.
\<close>

definition resolve_current :: "config \<Rightarrow> entry \<Rightarrow> entry \<times> event list" where
  "resolve_current cfg cur0 =
     (case directive cur0 of
        Null \<Rightarrow> resolve cfg (plugins cfg) (cur0\<lparr>preserve := Some (\<not> clean cfg)\<rparr>) []
      | Undefined \<Rightarrow> (cur0, [])
      | Resolved d \<Rightarrow> (cur0, []))"

definition unsupported :: "entry \<Rightarrow> state \<Rightarrow> callback_result" where
  "unsupported cur s =
     \<lparr>returned = True, popped_current = False, current = cur,
      after = (if \<not> m_blacklist (metadata cur)
               then s\<lparr>log := log s @ [Warn_unsupported (m_name (metadata cur)) (source cur)]\<rparr>
               else s)\<rparr>"

definition dispatch :: "nat \<Rightarrow> entry \<Rightarrow> state \<Rightarrow> fault + callback_result" where
  "dispatch i cur s =
     (let m = metadata cur
      in case directive cur of
           Resolved d \<Rightarrow>
             if \<not> m_begin m \<and> m_end m then
               (case cd_end d of
                  None \<Rightarrow> Inl Not_a_function
                | Some f \<Rightarrow>
                    (let (e, n1) = f (ntypes s i) (nodes s i) m;
                         s1 = s\<lparr>nodes := (nodes s)(i := n1), log := log s @ [Call_end (m_name m) i e]\<rparr>
                     in Inr \<lparr>returned = False, popped_current = e, current = cur, after = s1\<rparr>))
             else if \<not> expect_self d then
               Inr \<lparr>returned = True, popped_current = False, current = cur, after = s\<rparr>
             else
               (let (b, n1) = cd_begin d (ntypes s i) (nodes s i) m;
                    s1 = s\<lparr>nodes := (nodes s)(i := n1), log := log s @ [Call_begin (m_name m) i b]\<rparr>
                in if \<not> (b \<and> m_end m) then
                     Inr \<lparr>returned = True, popped_current = False, current = cur, after = s1\<rparr>
                   else
                     (case cd_end d of
                        None \<Rightarrow> Inl Not_a_function
                      | Some f \<Rightarrow>
                          (let (e, n2) = f (ntypes s1 i) (nodes s1 i) m;
                               s2 = s1\<lparr>nodes := (nodes s1)(i := n2), log := log s1 @ [Call_end (m_name m) i e]\<rparr>
                           in Inr \<lparr>returned = \<not> e, popped_current = False, current = cur, after = s2\<rparr>)))
         | Null \<Rightarrow> Inr (unsupported cur s)
         | Undefined \<Rightarrow> Inr (unsupported cur s))"

definition comment_callback :: "config \<Rightarrow> nat \<Rightarrow> entry \<Rightarrow> state \<Rightarrow> fault + callback_result" where
  "comment_callback cfg i cur0 s0 =
     (let (cur, ws) = resolve_current cfg cur0
      in dispatch i cur (s0\<lparr>log := log s0 @ ws\<rparr>))"

text \<open>
  Modelled from the spec: \<open>state.parse\<close> is defined in \<open>state.js\<close>, a file of the repository
  that is not embedded here. Following the specification of the directive parser, the
  directive forms of a comment are handed to the callback one after the other. A form
  that is not end-only introduces a new, unresolved entry. An end-only form closes a
  previously opened entry, taken to be the innermost open entry of the form's name: the
  callback receives the directive of that entry under the metadata of the form; when no
  entry of that name is open, the form is new and unresolved like any other. When the
  callback pops, that open entry leaves the stack; when it returns true, the entry it was
  given is pushed as the innermost one and the scan goes on with the next form; when it
  returns false, the scan of the comment stops.
\<close>

fun find_open :: "string \<Rightarrow> entry list \<Rightarrow> nat option" where
  "find_open name [] = None"
| "find_open name (e # es) =
     (case find_open name es of
        Some k \<Rightarrow> Some (Suc k)
      | None \<Rightarrow> if m_name (metadata e) = name then Some 0 else None)"

definition form_entry :: "nat \<Rightarrow> metadata \<Rightarrow> entry list \<Rightarrow> nat option \<times> entry" where
  "form_entry c m st =
     (case (if \<not> m_begin m \<and> m_end m then find_open (m_name m) st else None) of
        None \<Rightarrow> (None, \<lparr>metadata = m, directive = Null, source = c, preserve = None\<rparr>)
      | Some k \<Rightarrow>
          (Some k, \<lparr>metadata = m, directive = directive (st ! k), source = c,
                     preserve = preserve (st ! k)\<rparr>))"

definition parse_form :: "config \<Rightarrow> nat \<Rightarrow> metadata \<Rightarrow> state \<Rightarrow> fault + (bool \<times> state)" where
  "parse_form cfg c m s =
     (let (opened, cur) = form_entry c m (stack s)
      in case comment_callback cfg c cur s of
           Inl f \<Rightarrow> Inl f
         | Inr r \<Rightarrow>
             (let st = stack (after r);
                  st1 = (case opened of
                           None \<Rightarrow> st
                         | Some k \<Rightarrow> if popped_current r then take k st @ drop (Suc k) st else st);
                  st2 = (if returned r then st1 @ [current r] else st1)
              in Inr (returned r, (after r)\<lparr>stack := st2\<rparr>)))"

fun parse :: "config \<Rightarrow> nat \<Rightarrow> metadata list \<Rightarrow> state \<Rightarrow> fault + state" where
  "parse cfg c [] s = Inr s"
| "parse cfg c (m # ms) s =
     (case parse_form cfg c m s of
        Inl f \<Rightarrow> Inl f
      | Inr (go_on, s1) \<Rightarrow> if go_on then parse cfg c ms s1 else Inr s1)"

text \<open>
  The handler of comment nodes. \<open>forms\<close> are the directive forms that the directive
  parser reads in the text of the comment, in their order; a comment that is no
  directive has none.
\<close>

definition Comment_handler :: "config \<Rightarrow> nat \<Rightarrow> metadata list \<Rightarrow> state \<Rightarrow> fault + state" where
  "Comment_handler cfg c forms s =
     (case shouldProcess c s of
        Inl f \<Rightarrow> Inl f
      | Inr (ok, s1) \<Rightarrow> if \<not> ok then Inr s1 else parse cfg c forms s1)"

section \<open>The declaration handler\<close>

text \<open>
  \<open>hasRawValue n\<close> is the truthiness of \<open>node.raws.value && node.raws.value.raw\<close> (an
  empty string is falsy); \<open>working_value\<close> is \<open>hasRawValue ? node.raws.value.raw : node.value\<close>;
  \<open>important_raw\<close> is \<open>node.important && node.raws.important ? node.raws.important : ''\<close>.
\<close>

definition hasRawValue :: "node \<Rightarrow> bool" where
  "hasRawValue n = (case raws_value_raw n of None \<Rightarrow> False | Some r \<Rightarrow> r \<noteq> [])"

definition working_value :: "node \<Rightarrow> string" where
  "working_value n =
     (case raws_value_raw n of
        None \<Rightarrow> d_value n
      | Some r \<Rightarrow> if r \<noteq> [] then r else d_value n)"

definition hasImportantRaw :: "node \<Rightarrow> bool" where
  "hasImportantRaw n =
     (important n \<and> (case raws_important n of None \<Rightarrow> False | Some r \<Rightarrow> r \<noteq> []))"

definition important_raw :: "node \<Rightarrow> string" where
  "important_raw n =
     (if important n
      then (case raws_important n of None \<Rightarrow> [] | Some r \<Rightarrow> r)
      else [])"

definition tested_text :: "node \<Rightarrow> string" where
  "tested_text n = raws_between n @ working_value n @ important_raw n"

text \<open>
  The block under \<open>if (context.config.clean)\<close>. \<open>had_raw\<close> is \<open>hasRawValue\<close> as computed
  before the directive's action ran; when the action has removed \<open>node.raws.value\<close> in
  between, reading \<open>node.raws.value.raw\<close> is a TypeError.
\<close>

definition clean_directive :: "util \<Rightarrow> bool \<Rightarrow> node \<Rightarrow> fault + node" where
  "clean_directive u had_raw n =
     (let n1 = n\<lparr>raws_between := trimDirective u (raws_between n)\<rparr>;
          n2 = (if hasImportantRaw n1
                then n1\<lparr>raws_important := map_option (trimDirective u) (raws_important n1)\<rparr>
                else n1)
      in if had_raw then
           (case raws_value_raw n2 of
              None \<Rightarrow> Inl Null_dereference
            | Some r \<Rightarrow>
                Inr (n2\<lparr>raws_value_raw := Some (trimDirective u r), d_value := trimDirective u r\<rparr>))
         else Inr (n2\<lparr>d_value := trimDirective u (d_value n2)\<rparr>))"

text \<open>
  The loop over the value directives of one plugin (named \<open>pn\<close>). The boolean of the
  result is \<open>True\<close> when the handler has returned from inside the loop (the
  \<open>return false\<close> after \<open>flipped++\<close>).
\<close>

fun run_value_directives ::
  "util \<Rightarrow> config \<Rightarrow> string \<Rightarrow> nat \<Rightarrow> value_directive list \<Rightarrow> state \<Rightarrow> fault + (bool \<times> state)" where
  "run_value_directives u cfg pn i [] s = Inr (False, s)"
| "run_value_directives u cfg pn i (d # ds) s =
     (let n = nodes s i; had_raw = hasRawValue n
      in if regexDirective u (vd_name d) (tested_text n) then
           (let (ok, n1) = vd_action d n;
                s1 = s\<lparr>nodes := (nodes s)(i := n1), log := log s @ [Call_action pn (vd_name d) i ok]\<rparr>
            in if \<not> ok then run_value_directives u cfg pn i ds s1
               else if clean cfg then
                 (case clean_directive u had_raw n1 of
                    Inl f \<Rightarrow> Inl f
                  | Inr n2 \<Rightarrow> Inr (True, s1\<lparr>nodes := (nodes s1)(i := n2), flipped := Suc (flipped s1)\<rparr>))
               else Inr (True, s1\<lparr>flipped := Suc (flipped s1)\<rparr>))
         else run_value_directives u cfg pn i ds s)"

text \<open>
  \<open>alias_of cfg p\<close> is \<open>context.config.aliases[p]\<close> where it is truthy, read over the
  own keys of the table (a property named like a member of \<open>Object.prototype\<close> is outside
  this model). The body of the
  processor loop after the pattern has matched is \<open>apply_processor\<close>; \<open>processor_change\<close>
  is the pair the processor's action returns, with the comments restored in the value.
\<close>

definition alias_of :: "config \<Rightarrow> string \<Rightarrow> string option" where
  "alias_of cfg p =
     (case aliases cfg p of
        None \<Rightarrow> None
      | Some a \<Rightarrow> if a \<noteq> [] then Some a else None)"

definition matched_name :: "config \<Rightarrow> node \<Rightarrow> string" where
  "matched_name cfg n = (case alias_of cfg (d_prop n) of None \<Rightarrow> d_prop n | Some a \<Rightarrow> a)"

definition pre_swap :: "util \<Rightarrow> config \<Rightarrow> comment_state \<Rightarrow> comment_state" where
  "pre_swap u cfg st =
     (if processEnv cfg
      then st\<lparr>cs_value := swap u (cs_value st) ''safe-area-inset-left'' ''safe-area-inset-right''\<rparr>
      else st)"

definition processor_change :: "util \<Rightarrow> config \<Rightarrow> processor \<Rightarrow> node \<Rightarrow> string \<times> string" where
  "processor_change u cfg pr n =
     (let raw = working_value n;
          st = saveComments u raw;
          st1 = pre_swap u cfg st;
          (p, v) = pr_action pr (d_prop n) (cs_value st1);
          st2 = st1\<lparr>cs_value := v\<rparr>
      in (p, restoreComments u st2))"

definition apply_processor :: "util \<Rightarrow> config \<Rightarrow> string \<Rightarrow> nat \<Rightarrow> processor \<Rightarrow> state \<Rightarrow> state" where
  "apply_processor u cfg pn i pr s =
     (let n = nodes s i;
          raw = working_value n;
          (p, v) = processor_change u cfg pr n;
          s1 = s\<lparr>log := log s @ [Call_processor pn (pr_name pr) i]\<rparr>
      in if (alias_of cfg (d_prop n) = None \<and> p \<noteq> d_prop n) \<or> v \<noteq> raw
         then s1\<lparr>flipped := Suc (flipped s1), nodes := (nodes s1)(i := n\<lparr>d_prop := p, d_value := v\<rparr>)\<rparr>
         else s1)"

fun run_processors :: "util \<Rightarrow> config \<Rightarrow> string \<Rightarrow> nat \<Rightarrow> processor list \<Rightarrow> state \<Rightarrow> state" where
  "run_processors u cfg pn i [] s = s"
| "run_processors u cfg pn i (pr # prs) s =
     (if \<not> pr_expr pr (matched_name cfg (nodes s i)) then run_processors u cfg pn i prs s
      else apply_processor u cfg pn i pr s)"

text \<open>The loop over the plugins; the boolean is again "the handler has returned".\<close>

fun run_plugins :: "util \<Rightarrow> config \<Rightarrow> nat \<Rightarrow> plugin list \<Rightarrow> state \<Rightarrow> fault + (bool \<times> state)" where
  "run_plugins u cfg i [] s = Inr (False, s)"
| "run_plugins u cfg i (p # ps) s =
     (case run_value_directives u cfg (pl_name p) i (value_directives p) s of
        Inl f \<Rightarrow> Inl f
      | Inr (done, s1) \<Rightarrow>
          if done then Inr (True, s1)
          else run_plugins u cfg i ps (run_processors u cfg (pl_name p) i (processors p) s1))"

text \<open>
  \<open>toBeRenamed[key] = node\<close>: an existing key keeps its place, a new key goes last.
  Selectors that name a member of \<open>Object.prototype\<close> (such as \<open>constructor\<close>) are
  outside this model of the object.
\<close>

fun obj_set :: "(string \<times> nat) list \<Rightarrow> string \<Rightarrow> nat \<Rightarrow> (string \<times> nat) list" where
  "obj_set [] k v = [(k, v)]"
| "obj_set ((k', v') # kvs) k v = (if k' = k then (k, v) # kvs else (k', v') # obj_set kvs k v)"

text \<open>
  The tail of the handler, from the test \<open>if last decl, apply auto rename\<close> on. Reading
  \<open>node.parent.type\<close> of a node without parent is a TypeError.
\<close>

definition auto_rename :: "util \<Rightarrow> config \<Rightarrow> nat \<Rightarrow> state \<Rightarrow> fault + state" where
  "auto_rename u cfg i s =
     (if \<not> (autoRename cfg \<and> flipped s = 0) then Inr s
      else
        (case parent (nodes s i) of
           None \<Rightarrow> Inl Null_dereference
         | Some p \<Rightarrow>
             if \<not> (ntypes s p = Rule \<and> isLastOfType u i) then Inr s
             else
               (let sel = selector (nodes s p);
                    renamed = applyStringMap u sel False
                in if autoRenameStrict cfg then
                     (case map_of (toBeRenamed s) renamed of
                        Some pair \<Rightarrow>
                          (let s1 = s\<lparr>nodes := (nodes s)(pair := (nodes s pair)\<lparr>selector := sel\<rparr>)\<rparr>
                           in Inr (s1\<lparr>nodes := (nodes s1)(p := (nodes s1 p)\<lparr>selector := renamed\<rparr>)\<rparr>))
                      | None \<Rightarrow> Inr (s\<lparr>toBeRenamed := obj_set (toBeRenamed s) sel p\<rparr>))
                   else Inr (s\<lparr>nodes := (nodes s)(p := (nodes s p)\<lparr>selector := renamed\<rparr>)\<rparr>))))"

definition Declaration :: "util \<Rightarrow> config \<Rightarrow> nat \<Rightarrow> state \<Rightarrow> fault + state" where
  "Declaration u cfg i s =
     (case shouldProcess i s of
        Inl f \<Rightarrow> Inl f
      | Inr (ok, s1) \<Rightarrow>
          if \<not> ok then Inr s1
          else
            (case run_plugins u cfg i (plugins cfg) s1 of
               Inl f \<Rightarrow> Inl f
             | Inr (done, s2) \<Rightarrow> if done then Inr s2 else auto_rename u cfg i s2))"

section \<open>Document end\<close>

text \<open>
  \<open>Object.keys\<close> lists the keys that are array indices first, in ascending numeric
  order, then the other keys in insertion order.
\<close>

definition index_value :: "string \<Rightarrow> nat" where
  "index_value k = foldl (\<lambda>a c. 10 * a + (of_char c - 48)) (0::nat) k"

definition is_array_index :: "string \<Rightarrow> bool" where
  "is_array_index k =
     (list_all (\<lambda>c. List.member ''0123456789'' c) k
      \<and> (case k of [] \<Rightarrow> False | c # cs \<Rightarrow> cs = [] \<or> c \<noteq> CHR ''0'')
      \<and> index_value k < 4294967295)"

definition object_keys :: "(string \<times> nat) list \<Rightarrow> string list" where
  "object_keys kvs =
     sort_key index_value (filter is_array_index (map fst kvs))
       @ filter (\<lambda>k. \<not> is_array_index k) (map fst kvs)"

definition warn_unclosed :: "entry \<Rightarrow> state \<Rightarrow> fault + (bool \<times> state)" where
  "warn_unclosed item s =
     Inr (False, s\<lparr>log := log s @ [Warn_unclosed (m_name (metadata item)) (source item)]\<rparr>)"

fun warn_skipped :: "(string \<times> nat) list \<Rightarrow> string list \<Rightarrow> state \<Rightarrow> state" where
  "warn_skipped tbl [] s = s"
| "warn_skipped tbl (k # ks) s =
     (case map_of tbl k of
        None \<Rightarrow> warn_skipped tbl ks s
      | Some r \<Rightarrow> warn_skipped tbl ks (s\<lparr>log := log s @ [Warn_rename_skipped r]\<rparr>))"

definition OnceExit :: "nat \<Rightarrow> state \<Rightarrow> fault + state" where
  "OnceExit root s =
     (case walk warn_unclosed (stack s) s of
        Inl f \<Rightarrow> Inl f
      | Inr (kept, s1) \<Rightarrow>
          (let s2 = s1\<lparr>stack := kept\<rparr>;
               s3 = warn_skipped (toBeRenamed s2) (object_keys (toBeRenamed s2)) s2
           in Inr (s3\<lparr>log := log s3 @ [Call_post root]\<rparr>)))"

section \<open>Reading the log\<close>

text \<open>
  The events a handler adds to the log, and the callback invocations among them: the
  begin calls and the end calls with the name of the entry and the answer, and the
  processor calls with the names of plugin and processor.
\<close>

definition new_events :: "state \<Rightarrow> state \<Rightarrow> event list" where
  "new_events s s' = drop (length (log s)) (log s')"

fun begin_calls :: "event list \<Rightarrow> (string \<times> bool) list" where
  "begin_calls [] = []"
| "begin_calls (Call_begin nm i b # es) = (nm, b) # begin_calls es"
| "begin_calls (ev # es) = begin_calls es"

fun end_calls :: "event list \<Rightarrow> (string \<times> bool) list" where
  "end_calls [] = []"
| "end_calls (Call_end nm i b # es) = (nm, b) # end_calls es"
| "end_calls (ev # es) = end_calls es"

fun processor_calls :: "event list \<Rightarrow> (string \<times> string) list" where
  "processor_calls [] = []"
| "processor_calls (Call_processor pn nm i # es) = (pn, nm) # processor_calls es"
| "processor_calls (ev # es) = processor_calls es"

fun declined_action :: "event \<Rightarrow> bool" where
  "declined_action (Call_action pn nm i ok) = (\<not> ok)"
| "declined_action ev = False"

fun accepted_action :: "event \<Rightarrow> bool" where
  "accepted_action (Call_action pn nm i ok) = ok"
| "accepted_action ev = False"


text \<open>
  An open entry is consulted by the gate for a node of type \<open>ty\<close> when it is not
  blacklisted and its directive expects that type. \<open>survivors ty st rs\<close> is the stack
  \<open>st\<close> without the entries whose end call answered true, where \<open>rs\<close> lists the
  answers of the end calls in the order they were made.
\<close>

definition consulted :: "node_type \<Rightarrow> entry \<Rightarrow> bool" where
  "consulted ty e =
     (\<not> m_blacklist (metadata e)
      \<and> (case directive e of Resolved d \<Rightarrow> expect d ty | Null \<Rightarrow> False | Undefined \<Rightarrow> False))"

fun survivors :: "node_type \<Rightarrow> entry list \<Rightarrow> bool list \<Rightarrow> entry list" where
  "survivors ty [] rs = []"
| "survivors ty (e # es) rs =
     (if consulted ty e \<and> m_end (metadata e) then
        (case rs of
           [] \<Rightarrow> e # es
         | r # rs' \<Rightarrow> if r then survivors ty es rs' else e # survivors ty es rs')
      else e # survivors ty es rs)"

definition supplies :: "plugin \<Rightarrow> string \<Rightarrow> bool" where
  "supplies p name = (case control p name of None \<Rightarrow> False | Some d \<Rightarrow> True)"



text \<open>The gate invoked twice in a row on the same node.\<close>

definition gate_twice :: "nat \<Rightarrow> state \<Rightarrow> fault + (bool \<times> state)" where
  "gate_twice i s =
     (case shouldProcess i s of
        Inl f \<Rightarrow> Inl f
      | Inr (ok, s1) \<Rightarrow> shouldProcess i s1)"

section \<open>Sample inputs\<close>

text \<open>
  A small stylesheet, used where a statement is tried on concrete input:
  \<^verbatim>\<open>.left { color: red } .right { color: blue } .box { left: 1px; left: 1px /*rtl:ignore*/; start: 1px } /* ... */\<close>
  with the root as node 0, the rules as nodes 1, 2 and 5, their declarations as nodes
  3, 4 and 6 to 8, and a comment as node 9.
\<close>

definition blank_node :: node where
  "blank_node =
     \<lparr>selector = [], params = [], d_prop = [], d_value = [], important = False,
      raws_between = [], raws_value_raw = None, raws_important = None, parent = None\<rparr>"

definition decl_node :: "nat \<Rightarrow> string \<Rightarrow> string \<Rightarrow> node" where
  "decl_node p name v = blank_node\<lparr>d_prop := name, d_value := v, raws_between := '': '', parent := Some p\<rparr>"

definition demo_types :: "nat \<Rightarrow> node_type" where
  "demo_types i =
     (if i = 0 then Root
      else if i = 1 \<or> i = 2 \<or> i = 5 then Rule
      else if i = 9 then Comment
      else Decl)"

definition demo_nodes :: "nat \<Rightarrow> node" where
  "demo_nodes i =
     (if i = 1 then blank_node\<lparr>selector := ''.left''\<rparr>
      else if i = 2 then blank_node\<lparr>selector := ''.right''\<rparr>
      else if i = 3 then decl_node 1 ''color'' ''red''
      else if i = 4 then decl_node 2 ''color'' ''blue''
      else if i = 5 then blank_node\<lparr>selector := ''.box''\<rparr>
      else if i = 6 then decl_node 5 ''left'' ''1px''
      else if i = 7 then decl_node 5 ''left'' ''1px /*rtl:ignore*/''
      else if i = 8 then decl_node 5 ''start'' ''1px''
      else blank_node)"

text \<open>The state of a run that has not visited any node yet, with a given stack.\<close>

definition fresh :: "entry list \<Rightarrow> state" where
  "fresh st =
     \<lparr>ntypes = demo_types, nodes = demo_nodes, processed = (\<lambda>i. False), stack = st,
      flipped = 0, toBeRenamed = [], log = []\<rparr>"

text \<open>
  Utilities: a value directive \<open>name\<close> matches a text that ends with
  \<open>/*rtl:name*/\<close>; the string map exchanges \<open>.left\<close> and \<open>.right\<close>; a value holds no
  comment to set aside; every declaration is the last of its rule.
\<close>

definition demo_util :: util where
  "demo_util =
     \<lparr>regexDirective = (\<lambda>name txt.
          drop (length txt - length (''/*rtl:'' @ name @ ''*/'')) txt = ''/*rtl:'' @ name @ ''*/''),
      trimDirective = (\<lambda>txt. txt),
      saveComments = (\<lambda>v. \<lparr>cs_value = v, cs_saved = []\<rparr>),
      restoreComments = cs_value,
      swap = (\<lambda>v a b. v),
      applyStringMap = (\<lambda>sel url.
          if sel = ''.left'' then ''.right'' else if sel = ''.right'' then ''.left'' else sel),
      isLastOfType = (\<lambda>i. True)\<rparr>"

text \<open>
  Control directives: \<open>ignore\<close> claims rules, at-rules and declarations; \<open>rename\<close>
  rewrites the selector of a rule and leaves it to the dispatcher; \<open>no_end_directive\<close>
  is \<open>ignore\<close> without the optional end handler.
\<close>

definition ignore_directive :: control_directive where
  "ignore_directive =
     \<lparr>expect = (\<lambda>ty. ty = Rule \<or> ty = AtRule \<or> ty = Decl), expect_self = False,
      cd_begin = (\<lambda>ty n m. (True, n)), cd_end = Some (\<lambda>ty n m. (True, n))\<rparr>"

definition rename_directive :: control_directive where
  "rename_directive =
     \<lparr>expect = (\<lambda>ty. ty = Rule), expect_self = False,
      cd_begin = (\<lambda>ty n m. (False, n\<lparr>selector := m_param m\<rparr>)),
      cd_end = Some (\<lambda>ty n m. (True, n))\<rparr>"

definition no_end_directive :: control_directive where
  "no_end_directive =
     \<lparr>expect = (\<lambda>ty. ty = Rule \<or> ty = AtRule \<or> ty = Decl), expect_self = False,
      cd_begin = (\<lambda>ty n m. (True, n)), cd_end = None\<rparr>"

definition form :: "string \<Rightarrow> bool \<Rightarrow> bool \<Rightarrow> metadata" where
  "form name b e = \<lparr>m_name = name, m_param = [], m_begin = b, m_end = e, m_blacklist = False\<rparr>"

definition new_entry :: "metadata \<Rightarrow> entry" where
  "new_entry m = \<lparr>metadata = m, directive = Null, source = 9, preserve = None\<rparr>"

definition open_entry :: "metadata \<Rightarrow> control_directive \<Rightarrow> entry" where
  "open_entry m d = \<lparr>metadata = m, directive = Resolved d, source = 9, preserve = Some True\<rparr>"

definition blacklisted_entry :: "metadata \<Rightarrow> entry" where
  "blacklisted_entry m =
     \<lparr>metadata = m\<lparr>m_blacklist := True\<rparr>, directive = Null, source = 9, preserve = Some True\<rparr>"

text \<open>
  Plugins: a processor for \<open>left\<close> and \<open>right\<close> that exchanges the two property names,
  and value directives \<open>ignore\<close> whose action declines or accepts.
\<close>

definition flip_processor :: processor where
  "flip_processor =
     \<lparr>pr_name = ''left'', pr_expr = (\<lambda>name. name = ''left'' \<or> name = ''right''),
      pr_action = (\<lambda>name v. (if name = ''right'' then ''left'' else ''right'', v))\<rparr>"

definition demo_plugin :: "string \<Rightarrow> value_directive list \<Rightarrow> plugin" where
  "demo_plugin name vds =
     \<lparr>pl_name = name, control = [''ignore'' \<mapsto> ignore_directive], value_directives = vds,
      processors = [flip_processor]\<rparr>"

definition declining :: value_directive where
  "declining = \<lparr>vd_name = ''ignore'', vd_action = (\<lambda>n. (False, n))\<rparr>"

definition accepting :: value_directive where
  "accepting = \<lparr>vd_name = ''ignore'', vd_action = (\<lambda>n. (True, n))\<rparr>"

definition demo_config :: "plugin list \<Rightarrow> config" where
  "demo_config ps =
     \<lparr>plugins = ps, blacklist = Map.empty, aliases = Map.empty, clean = False,
      autoRename = False, autoRenameStrict = False, processEnv = False,
      processUrls = Urls_flag False\<rparr>"

text \<open>
  A run over the two rules \<open>.left\<close> and \<open>.right\<close> under strict auto-rename: the
  declaration of the first rule, the declaration of the second, the end of the document.
\<close>

definition strict_config :: config where
  "strict_config = (demo_config [demo_plugin ''rtlcss'' []])\<lparr>autoRename := True, autoRenameStrict := True\<rparr>"

definition strict_pair_run :: "fault + state" where
  "strict_pair_run =
     (case Declaration demo_util strict_config 3 (fresh []) of
        Inl f \<Rightarrow> Inl f
      | Inr s1 \<Rightarrow>
          (case Declaration demo_util strict_config 4 s1 of
             Inl f \<Rightarrow> Inl f
           | Inr s2 \<Rightarrow> OnceExit 0 s2))"

text \<open>
  States for the node gate. In \<open>gate_demo\<close> three entries are open when rule 1 is
  visited: \<open>ignore\<close> from a begin form, a blacklisted \<open>raw\<close>, and \<open>rename\<close> from a form
  that carries both markers. In \<open>ignoring\<close> only the first of them is open.
  \<open>lean_plugin\<close> supplies \<open>ignore\<close> without an end handler.
\<close>

definition gate_demo :: state where
  "gate_demo =
     fresh [open_entry (form ''ignore'' True False) ignore_directive,
            blacklisted_entry (form ''raw'' True False),
            open_entry (form ''rename'' True True) rename_directive]"

definition ignoring :: state where
  "ignoring = fresh [open_entry (form ''ignore'' True False) ignore_directive]"

definition lean_plugin :: plugin where
  "lean_plugin =
     \<lparr>pl_name = ''lean'', control = [''ignore'' \<mapsto> no_end_directive], value_directives = [],
      processors = []\<rparr>"

text \<open>
  Modelled from the spec: \<open>state.parse\<close> (in \<open>state.js\<close>) hands each directive form of a
  comment to the callback and pushes the entry when the callback returns true.
  \<open>parse_then_gate cfg cur i\<close> is a comment (node 9) holding the one new form \<open>cur\<close>,
  read at the start of a run, followed by the gate on node \<open>i\<close>.
\<close>

definition parse_then_gate :: "config \<Rightarrow> entry \<Rightarrow> nat \<Rightarrow> fault + (bool \<times> state)" where
  "parse_then_gate cfg cur i =
     (case comment_callback cfg 9 cur (fresh []) of
        Inl f \<Rightarrow> Inl f
      | Inr r \<Rightarrow> shouldProcess i ((after r)\<lparr>stack := (if returned r then [current r] else [])\<rparr>))"

text \<open>
  Configurations with a blacklist: the only plugin blacklists its own \<open>ignore\<close>; or
  the second plugin blacklists \<open>ignore\<close> and \<open>raw\<close>, while the first one supplies an
  \<open>ignore\<close> of its own.
\<close>

definition blacklist_config :: config where
  "blacklist_config =
     (demo_config [demo_plugin ''rtlcss'' []])\<lparr>blacklist := [''rtlcss'' \<mapsto> [''ignore'' \<mapsto> True]]\<rparr>"

definition later_blacklist_config :: config where
  "later_blacklist_config =
     (demo_config [demo_plugin ''custom'' [], demo_plugin ''rtlcss'' []])
       \<lparr>blacklist := [''rtlcss'' \<mapsto> [''ignore'' \<mapsto> True, ''raw'' \<mapsto> True]]\<rparr>"


text \<open>
  What the pipeline leaves alone: the pending renames, the stack, the marks and every
  node but the declaration; the flip counter never goes down.
\<close>

definition decl_frame :: "nat \<Rightarrow> state \<Rightarrow> state \<Rightarrow> bool" where
  "decl_frame i s s' =
     (toBeRenamed s' = toBeRenamed s \<and> ntypes s' = ntypes s \<and> stack s' = stack s
      \<and> processed s' = processed s \<and> flipped s \<le> flipped s'
      \<and> (\<forall>j. j \<noteq> i \<longrightarrow> nodes s' j = nodes s j))"

text \<open>
  Two plugins in a row: the first holds a processor only; the second holds two value
  directives \<open>ignore\<close> as well, of which the first declines and the second accepts.
\<close>

definition staged_plugin :: plugin where
  "staged_plugin = demo_plugin ''rtlcss'' [declining, accepting]"

definition staged_config :: config where
  "staged_config = demo_config [demo_plugin ''first'' [], staged_plugin]"

text \<open>Reading one field of one node of the tree.\<close>

definition selector_of :: "nat \<Rightarrow> state \<Rightarrow> string" where
  "selector_of i s = selector (nodes s i)"

definition prop_of :: "nat \<Rightarrow> state \<Rightarrow> string" where
  "prop_of i s = d_prop (nodes s i)"




text \<open>An alias table that lets the processors for \<open>left\<close> see the property \<open>start\<close>.\<close>

definition alias_config :: config where
  "alias_config = (demo_config [demo_plugin ''rtlcss'' []])\<lparr>aliases := [''start'' \<mapsto> ''left'']\<rparr>"

text \<open>
  One handler after another, and the sample runs built with it. \<open>two_comments\<close> is the
  start of a run over the sample stylesheet with a second comment as node 10. In
  \<open>pair_run\<close> the first comment holds the begin form of \<open>ignore\<close> and the second one its
  end-only form, with rule 1 in between; in \<open>unmatched_run\<close> one comment holds two begin
  forms and nothing closes them; in \<open>unsupported_run\<close> a comment holds the begin form of a
  directive that no plugin knows, and rule 1 follows. In \<open>self_closing\<close> the entry of a
  form \<open>ignore\<close> with both markers is open.
\<close>

definition then_do :: "fault + state \<Rightarrow> (state \<Rightarrow> fault + state) \<Rightarrow> fault + state" where
  "then_do r h = (case r of Inl f \<Rightarrow> Inl f | Inr s \<Rightarrow> h s)"




definition unsupported_run :: "fault + state" where
  "unsupported_run =
     then_do
       (Comment_handler (demo_config [demo_plugin ''rtlcss'' []]) 9 [form ''bogus'' True False]
          (fresh []))
       (Rule_handler 1)"

definition self_closing :: state where
  "self_closing = fresh [open_entry (form ''ignore'' True True) ignore_directive]"

section \<open>The node gate: one entry, then the whole stack\<close>

lemma begin_calls_append: "begin_calls (xs @ ys) = begin_calls xs @ begin_calls ys"
  by (induction xs rule: begin_calls.induct) auto

lemma end_calls_append: "end_calls (xs @ ys) = end_calls xs @ end_calls ys"
  by (induction xs rule: end_calls.induct) auto

lemma consulted_Resolved:
  "consulted ty e \<Longrightarrow> \<exists>d. directive e = Resolved d \<and> expect d ty \<and> \<not> m_blacklist (metadata e)"
  by (cases "directive e") (simp_all add: consulted_def)

lemma gate_step_blacklisted: "m_blacklist (metadata e) \<Longrightarrow> gate_step i e s = Inr (False, s)"
  by (simp add: gate_step_def)

lemma gate_step_skip:
  "\<not> consulted (ntypes s i) e \<Longrightarrow> gate_step i e s = Inr r \<Longrightarrow> r = (False, s)"
  by (cases "directive e") (auto simp: gate_step_def consulted_def split: if_splits)

lemma gate_step_begin_only:
  assumes "directive e = Resolved d" "expect d (ntypes s i)" "\<not> m_blacklist (metadata e)"
    "cd_begin d (ntypes s i) (nodes s i) (metadata e) = (b, n1)" "\<not> m_end (metadata e)"
  shows "gate_step i e s =
           Inr (False, s\<lparr>nodes := (nodes s)(i := n1),
                         processed := (if b then (processed s)(i := False) else processed s),
                         log := log s @ [Call_begin (m_name (metadata e)) i b]\<rparr>)"
  using assms by (simp add: gate_step_def)

lemma gate_step_begin_end:
  assumes "directive e = Resolved d" "expect d (ntypes s i)" "\<not> m_blacklist (metadata e)"
    "cd_begin d (ntypes s i) (nodes s i) (metadata e) = (b, n1)" "m_end (metadata e)"
    "cd_end d = Some f" "f (ntypes s i) n1 (metadata e) = (r, n2)"
  shows "gate_step i e s =
           Inr (r, s\<lparr>nodes := (nodes s)(i := n2),
                     processed := (if b then (processed s)(i := False) else processed s),
                     log := log s @ [Call_begin (m_name (metadata e)) i b,
                                     Call_end (m_name (metadata e)) i r]\<rparr>)"
  using assms by (simp add: gate_step_def)

lemma gate_step_missing_end:
  assumes "directive e = Resolved d" "expect d (ntypes s i)" "\<not> m_blacklist (metadata e)"
    "m_end (metadata e)" "cd_end d = None"
  shows "gate_step i e s = Inl Not_a_function"
  using assms by (simp add: gate_step_def split: prod.splits)

text \<open>
  What one consulted entry adds: its begin call, its end call when the form carries an
  end marker, the mark cleared when begin answered true, and nothing else of the state
  of the core.
\<close>

lemma gate_step_consulted:
  assumes "consulted (ntypes s i) e" and "gate_step i e s = Inr (popped, s1)"
  shows "\<exists>b. log s1 = log s @ Call_begin (m_name (metadata e)) i b
                 # (if m_end (metadata e) then [Call_end (m_name (metadata e)) i popped] else [])
            \<and> processed s1 = (if b then (processed s)(i := False) else processed s)
            \<and> (\<not> m_end (metadata e) \<longrightarrow> \<not> popped)
            \<and> ntypes s1 = ntypes s \<and> stack s1 = stack s \<and> flipped s1 = flipped s
            \<and> toBeRenamed s1 = toBeRenamed s \<and> (\<forall>j. j \<noteq> i \<longrightarrow> nodes s1 j = nodes s j)"
proof -
  from consulted_Resolved[OF assms(1)] obtain d where
    d: "directive e = Resolved d" "expect d (ntypes s i)" "\<not> m_blacklist (metadata e)"
    by blast
  obtain b n1 where b: "cd_begin d (ntypes s i) (nodes s i) (metadata e) = (b, n1)"
    by (cases "cd_begin d (ntypes s i) (nodes s i) (metadata e)")
  show ?thesis
  proof (cases "m_end (metadata e)")
    case False
    define S where "S = s\<lparr>nodes := (nodes s)(i := n1),
                          processed := (if b then (processed s)(i := False) else processed s),
                          log := log s @ [Call_begin (m_name (metadata e)) i b]\<rparr>"
    from gate_step_begin_only[OF d b False] have "gate_step i e s = Inr (False, S)"
      by (simp only: S_def)
    with assms(2) have "popped = False" and "s1 = S" by simp_all
    with False show ?thesis by (intro exI[of _ b]) (simp add: S_def)
  next
    case True
    show ?thesis
    proof (cases "cd_end d")
      case None
      from gate_step_missing_end[OF d True None] assms(2) show ?thesis by simp
    next
      case (Some f)
      obtain r n2 where r: "f (ntypes s i) n1 (metadata e) = (r, n2)"
        by (cases "f (ntypes s i) n1 (metadata e)")
      define S where "S = s\<lparr>nodes := (nodes s)(i := n2),
                            processed := (if b then (processed s)(i := False) else processed s),
                            log := log s @ [Call_begin (m_name (metadata e)) i b,
                                            Call_end (m_name (metadata e)) i r]\<rparr>"
      from gate_step_begin_end[OF d b True Some r] have "gate_step i e s = Inr (r, S)"
        by (simp only: S_def)
      with assms(2) have "popped = r" and "s1 = S" by simp_all
      with True show ?thesis by (intro exI[of _ b]) (simp add: S_def)
    qed
  qed
qed

lemma walk_Cons_Inr:
  assumes "walk cb (e # es) s = Inr (kept, s')"
  obtains popped s1 kept1 where "cb e s = Inr (popped, s1)" "walk cb es s1 = Inr (kept1, s')"
    "kept = (if popped then kept1 else e # kept1)"
  using assms by (auto split: sum.splits prod.splits)

text \<open>
  The effect of walking a stack \<open>st\<close> with the gate's callback, from \<open>s\<close> to \<open>s'\<close> with
  the events \<open>new\<close> added to the log.
\<close>

lemma walk_gate:
  assumes "walk (gate_step i) st s = Inr (kept, s')"
  shows "\<exists>new. log s' = log s @ new
      \<and> map fst (begin_calls new) = map (m_name \<circ> metadata) (filter (consulted (ntypes s i)) st)
      \<and> map fst (end_calls new)
          = map (m_name \<circ> metadata) (filter (\<lambda>e. consulted (ntypes s i) e \<and> m_end (metadata e)) st)
      \<and> kept = survivors (ntypes s i) st (map snd (end_calls new))
      \<and> processed s' = (if True \<in> snd ` set (begin_calls new) then (processed s)(i := False) else processed s)
      \<and> ntypes s' = ntypes s \<and> stack s' = stack s \<and> flipped s' = flipped s
      \<and> toBeRenamed s' = toBeRenamed s \<and> (\<forall>j. j \<noteq> i \<longrightarrow> nodes s' j = nodes s j)"
  using assms
proof (induction st arbitrary: s kept)
  case Nil
  then show ?case by (intro exI[of _ "[]"]) simp
next
  case (Cons e es)
  from Cons.prems obtain popped s1 kept1 where
    step: "gate_step i e s = Inr (popped, s1)" and rest: "walk (gate_step i) es s1 = Inr (kept1, s')"
    and kept: "kept = (if popped then kept1 else e # kept1)"
    by (rule walk_Cons_Inr)
  from Cons.IH[OF rest] obtain new1 where ih:
    "log s' = log s1 @ new1"
    "map fst (begin_calls new1) = map (m_name \<circ> metadata) (filter (consulted (ntypes s1 i)) es)"
    "map fst (end_calls new1)
       = map (m_name \<circ> metadata) (filter (\<lambda>e. consulted (ntypes s1 i) e \<and> m_end (metadata e)) es)"
    "kept1 = survivors (ntypes s1 i) es (map snd (end_calls new1))"
    "processed s' = (if True \<in> snd ` set (begin_calls new1) then (processed s1)(i := False) else processed s1)"
    "ntypes s' = ntypes s1" "stack s' = stack s1" "flipped s' = flipped s1"
    "toBeRenamed s' = toBeRenamed s1" "\<forall>j. j \<noteq> i \<longrightarrow> nodes s' j = nodes s1 j"
    by blast
  show ?case
  proof (cases "consulted (ntypes s i) e")
    case False
    from gate_step_skip[OF False step] have "popped = False" "s1 = s" by simp_all
    with ih kept False show ?thesis
      by (intro exI[of _ new1]) simp
  next
    case True
    from gate_step_consulted[OF True step] obtain b where
      b: "log s1 = log s @ Call_begin (m_name (metadata e)) i b
                 # (if m_end (metadata e) then [Call_end (m_name (metadata e)) i popped] else [])"
      "processed s1 = (if b then (processed s)(i := False) else processed s)"
      "\<not> m_end (metadata e) \<longrightarrow> \<not> popped"
      "ntypes s1 = ntypes s" "stack s1 = stack s" "flipped s1 = flipped s"
      "toBeRenamed s1 = toBeRenamed s" "\<forall>j. j \<noteq> i \<longrightarrow> nodes s1 j = nodes s j"
      by blast
    let ?ev = "Call_begin (m_name (metadata e)) i b
                 # (if m_end (metadata e) then [Call_end (m_name (metadata e)) i popped] else [])"
    from ih b kept True show ?thesis
      by (intro exI[of _ "?ev @ new1"]) (auto simp: begin_calls_append end_calls_append)
  qed
qed


lemma shouldProcess_unmarked:
  assumes "\<not> processed s i" and "shouldProcess i s = Inr (ok, s')"
  obtains kept s1 where
    "walk (gate_step i) (stack s) (s\<lparr>processed := (processed s)(i := True)\<rparr>) = Inr (kept, s1)"
    "s' = s1\<lparr>stack := kept\<rparr>" "ok = processed s1 i"
  using assms by (auto simp: shouldProcess_def Let_def split: sum.splits prod.splits)


lemma Inr_pairI: "\<not> isl r \<Longrightarrow> fst (projr r) = b \<Longrightarrow> r = Inr (b, snd (projr r))"
  by (cases r) auto

section \<open>Claims about the node gate\<close>

text \<open>
  C4. In the node gate every open entry that is not blacklisted and expects the type of
  the node is consulted, in stack order (outermost first), whatever the begin calls
  before it answered: the begin calls made are those of the consulted entries, in that
  order, and the end calls are those of the consulted entries whose form carries an end
  marker. An entry leaves the stack exactly when its end call answered true. The result
  of the gate is the final value of the processed mark, which is set unless some begin
  call answered true. (The walk over the stack is modelled from the specification.)
\<close>

theorem gate_consults_stack_in_order:
  assumes "\<not> processed s i" and "shouldProcess i s = Inr (ok, s')"
  shows "map fst (begin_calls (new_events s s'))
           = map (m_name \<circ> metadata) (filter (consulted (ntypes s i)) (stack s))
       \<and> map fst (end_calls (new_events s s'))
           = map (m_name \<circ> metadata)
               (filter (\<lambda>e. consulted (ntypes s i) e \<and> m_end (metadata e)) (stack s))
       \<and> stack s' = survivors (ntypes s i) (stack s) (map snd (end_calls (new_events s s')))
       \<and> ok = processed s' i
       \<and> ok = (True \<notin> snd ` set (begin_calls (new_events s s')))"
proof -
  let ?s0 = "s\<lparr>processed := (processed s)(i := True)\<rparr>"
  from shouldProcess_unmarked[OF assms] obtain kept s1 where
    w: "walk (gate_step i) (stack s) ?s0 = Inr (kept, s1)"
    and s': "s' = s1\<lparr>stack := kept\<rparr>" and ok: "ok = processed s1 i"
    by blast
  from walk_gate[OF w] obtain new where n:
    "log s1 = log s @ new"
    "map fst (begin_calls new) = map (m_name \<circ> metadata) (filter (consulted (ntypes s i)) (stack s))"
    "map fst (end_calls new)
       = map (m_name \<circ> metadata) (filter (\<lambda>e. consulted (ntypes s i) e \<and> m_end (metadata e)) (stack s))"
    "kept = survivors (ntypes s i) (stack s) (map snd (end_calls new))"
    "processed s1 = (if True \<in> snd ` set (begin_calls new) then (processed ?s0)(i := False) else processed ?s0)"
    by auto
  from n(1) s' have ev: "new_events s s' = new" by (simp add: new_events_def)
  from n(5) have "processed s1 i = (True \<notin> snd ` set (begin_calls new))" by simp
  with n(2,3,4) ok s' ev show ?thesis by simp
qed

theorem gate_consults_stack_in_order_witness:
  "\<exists>s'. shouldProcess 1 gate_demo = Inr (False, s') \<and> \<not> processed gate_demo 1
        \<and> map fst (begin_calls (new_events gate_demo s')) = [''ignore'', ''rename'']
        \<and> map fst (end_calls (new_events gate_demo s')) = [''rename'']
        \<and> map (m_name \<circ> metadata) (stack s') = [''ignore'', ''raw'']
        \<and> \<not> processed s' 1"
proof -
  define after where "after = snd (projr (shouldProcess 1 gate_demo))"
  have "\<not> isl (shouldProcess 1 gate_demo)" and "fst (projr (shouldProcess 1 gate_demo)) = False"
    by code_simp+
  then have run: "shouldProcess 1 gate_demo = Inr (False, after)"
    unfolding after_def by (rule Inr_pairI)
  have un: "\<not> processed gate_demo 1" by code_simp
  note th = gate_consults_stack_in_order[OF un run]
  have c1: "map (m_name \<circ> metadata) (filter (consulted (ntypes gate_demo 1)) (stack gate_demo))
              = [''ignore'', ''rename'']"
    by code_simp
  have c2: "map (m_name \<circ> metadata)
              (filter (\<lambda>e. consulted (ntypes gate_demo 1) e \<and> m_end (metadata e)) (stack gate_demo))
              = [''rename'']"
    by code_simp
  have c3: "map (m_name \<circ> metadata) (stack after) = [''ignore'', ''raw'']"
    unfolding after_def by code_simp
  note t1 = th[THEN conjunct1]
  note t2 = th[THEN conjunct2, THEN conjunct1]
  note t4 = th[THEN conjunct2, THEN conjunct2, THEN conjunct2, THEN conjunct1]
  from t4 have p: "\<not> processed after 1" by simp
  show ?thesis
  proof (intro exI[of _ after] conjI)
    show "shouldProcess 1 gate_demo = Inr (False, after)" by (rule run)
    show "\<not> processed gate_demo 1" by (rule un)
    show "map fst (begin_calls (new_events gate_demo after)) = [''ignore'', ''rename'']"
      by (rule trans[OF t1 c1])
    show "map fst (end_calls (new_events gate_demo after)) = [''rename'']"
      by (rule trans[OF t2 c2])
    show "map (m_name \<circ> metadata) (stack after) = [''ignore'', ''raw'']" by (rule c3)
    show "\<not> processed after 1" by (rule p)
  qed
qed

text \<open>
  C6. The claim does not hold of the gate as written. The gate keeps its verdict in the
  processed mark itself: a begin call that answers true clears the mark (line 40), so
  the guard of line 32 does not recognise the node at its next visit. With the entry of
  a form \<open>ignore\<close> that carries both markers open, the first visit of rule 1 calls begin
  and end, is answered true by both, finds the rule ineligible and pops the entry; the
  second visit of the same rule walks the stack again, now empty, and finds the rule
  eligible. With the entry of the begin form of \<open>ignore\<close> open, the second visit calls
  begin once more.
\<close>

theorem claimed_node_is_walked_again:
  "map_sum id fst (shouldProcess 1 self_closing) = Inr False
   \<and> map_sum id (log \<circ> snd) (shouldProcess 1 self_closing)
       = Inr [Call_begin ''ignore'' 1 True, Call_end ''ignore'' 1 True]
   \<and> map_sum id (length \<circ> stack \<circ> snd) (shouldProcess 1 self_closing) = Inr 0
   \<and> map_sum id fst (gate_twice 1 self_closing) = Inr True
   \<and> map_sum id (log \<circ> snd) (shouldProcess 1 ignoring) = Inr [Call_begin ''ignore'' 1 True]
   \<and> map_sum id fst (gate_twice 1 ignoring) = Inr False
   \<and> map_sum id (log \<circ> snd) (gate_twice 1 ignoring)
       = Inr [Call_begin ''ignore'' 1 True, Call_begin ''ignore'' 1 True]"
  by code_simp


section \<open>The comment handler: resolution and dispatch\<close>

lemma dispatch_Null: "directive cur = Null \<Longrightarrow> dispatch i cur s = Inr (unsupported cur s)"
  by (simp add: dispatch_def)

lemma dispatch_Undefined: "directive cur = Undefined \<Longrightarrow> dispatch i cur s = Inr (unsupported cur s)"
  by (simp add: dispatch_def)

text \<open>
  The scan of the plugins when the first plugin that blacklists the name or supplies a
  control directive of that name is one that blacklists it.
\<close>

lemma resolve_blacklisted:
  assumes "list_all (\<lambda>q. \<not> blacklisted cfg q (m_name (metadata cur))
                         \<and> \<not> supplies q (m_name (metadata cur))) pre"
    and "blacklisted cfg p (m_name (metadata cur))"
  shows "resolve cfg (pre @ p # post) cur ws =
           (cur\<lparr>directive := (if pre = [] then directive cur else Undefined),
                metadata := (metadata cur)\<lparr>m_blacklist := True\<rparr>\<rparr>,
            ws @ (if m_begin (metadata cur) \<and> \<not> m_end (metadata cur)
                  then [Warn_blacklisted (pl_name p) (m_name (metadata cur)) (source cur)]
                  else []))"
  using assms
proof (induction pre arbitrary: cur)
  case Nil
  then show ?case by (simp add: Let_def)
next
  case (Cons q pre)
  from Cons.prems have q: "\<not> blacklisted cfg q (m_name (metadata cur))"
    "control q (m_name (metadata cur)) = None"
    by (cases "control q (m_name (metadata cur))"; simp add: supplies_def)+
  let ?c = "cur\<lparr>directive := Undefined\<rparr>"
  from Cons.prems have "list_all (\<lambda>q. \<not> blacklisted cfg q (m_name (metadata ?c))
                         \<and> \<not> supplies q (m_name (metadata ?c))) pre"
    and "blacklisted cfg p (m_name (metadata ?c))"
    by simp_all
  from Cons.IH[OF this] q show ?case
    by (simp add: control_lookup_def Let_def)
qed



lemma walk_blacklisted:
  "list_all (\<lambda>e. m_blacklist (metadata e)) st \<Longrightarrow> walk (gate_step i) st s = Inr (st, s)"
  by (induction st) (simp_all add: gate_step_blacklisted)




















section \<open>Claims about the comment handler and the end of the document\<close>

text \<open>
  C5 as stated fails twice. A form that carries both markers is a begin occurrence, and
  with its name blacklisted it emits no warning. And a name that stands in the blacklist
  table of the second plugin is resolved by the first plugin when that one supplies a
  control directive of the name: the begin form emits no warning, and the gate calls
  its begin.
\<close>

theorem blacklist_counterexample:
  "map_sum id (log \<circ> after)
     (comment_callback blacklist_config 9 (new_entry (form ''ignore'' True True)) (fresh [])) = Inr []
   \<and> map_sum id (log \<circ> snd)
       (parse_then_gate later_blacklist_config (new_entry (form ''ignore'' True False)) 1)
     = Inr [Call_begin ''ignore'' 1 True]"
  by code_simp

text \<open>
  C5, amended. When the first plugin, in registration order, that either blacklists the
  name of a new directive form or supplies a control directive of that name is one that
  blacklists it, the comment handler invokes no begin or end callback for the form: it
  marks the entry blacklisted, leaves it unresolved, asks for it to be pushed, and emits
  exactly one blacklisted-directive warning when the form carries a begin marker and no
  end marker, and none otherwise. The node gate skips every blacklisted entry: its step
  on such an entry returns the state as it was, and walking a stack of blacklisted
  entries changes nothing.
\<close>

theorem blacklisted_directive_is_never_run:
  assumes "plugins cfg = pre @ p # post"
    and "list_all (\<lambda>q. \<not> blacklisted cfg q (m_name (metadata cur))
                         \<and> \<not> supplies q (m_name (metadata cur))) pre"
    and "blacklisted cfg p (m_name (metadata cur))"
    and "directive cur = Null"
  shows "comment_callback cfg c cur s =
           Inr \<lparr>returned = True, popped_current = False,
                current = cur\<lparr>preserve := Some (\<not> clean cfg),
                              directive := (if pre = [] then Null else Undefined),
                              metadata := (metadata cur)\<lparr>m_blacklist := True\<rparr>\<rparr>,
                after = s\<lparr>log := log s @
                            (if m_begin (metadata cur) \<and> \<not> m_end (metadata cur)
                             then [Warn_blacklisted (pl_name p) (m_name (metadata cur)) (source cur)]
                             else [])\<rparr>\<rparr>
       \<and> (\<forall>e i t. m_blacklist (metadata e) \<longrightarrow> gate_step i e t = Inr (False, t))
       \<and> (\<forall>st i t. list_all (\<lambda>e. m_blacklist (metadata e)) st
             \<longrightarrow> walk (gate_step i) st t = Inr (st, t))"
proof -
  let ?c0 = "cur\<lparr>preserve := Some (\<not> clean cfg)\<rparr>"
  let ?ws = "if m_begin (metadata cur) \<and> \<not> m_end (metadata cur)
             then [Warn_blacklisted (pl_name p) (m_name (metadata cur)) (source cur)] else []"
  let ?c1 = "cur\<lparr>preserve := Some (\<not> clean cfg),
                  directive := (if pre = [] then Null else Undefined),
                  metadata := (metadata cur)\<lparr>m_blacklist := True\<rparr>\<rparr>"
  from assms(2,3) have "list_all (\<lambda>q. \<not> blacklisted cfg q (m_name (metadata ?c0))
                         \<and> \<not> supplies q (m_name (metadata ?c0))) pre"
    and "blacklisted cfg p (m_name (metadata ?c0))"
    by simp_all
  from resolve_blacklisted[OF this, of post "[]"] assms(1,4)
  have r: "resolve_current cfg cur = (?c1, ?ws)"
    by (simp add: resolve_current_def)
  have d: "dispatch c ?c1 (s\<lparr>log := log s @ ?ws\<rparr>) = Inr (unsupported ?c1 (s\<lparr>log := log s @ ?ws\<rparr>))"
    by (cases "pre = []") (simp_all add: dispatch_Null dispatch_Undefined)
  have "comment_callback cfg c cur s = Inr (unsupported ?c1 (s\<lparr>log := log s @ ?ws\<rparr>))"
    using r d by (simp add: comment_callback_def)
  then show ?thesis
    by (simp add: unsupported_def walk_blacklisted gate_step_blacklisted)
qed

theorem blacklisted_directive_is_never_run_witness:
  "plugins later_blacklist_config = [demo_plugin ''custom'' []] @ demo_plugin ''rtlcss'' [] # []
   \<and> list_all (\<lambda>q. \<not> blacklisted later_blacklist_config q (m_name (metadata (new_entry (form ''raw'' True False))))
                    \<and> \<not> supplies q (m_name (metadata (new_entry (form ''raw'' True False)))))
        [demo_plugin ''custom'' []]
   \<and> blacklisted later_blacklist_config (demo_plugin ''rtlcss'' [])
        (m_name (metadata (new_entry (form ''raw'' True False))))
   \<and> map_sum id (log \<circ> after)
        (comment_callback later_blacklist_config 9 (new_entry (form ''raw'' True False)) (fresh []))
      = Inr [Warn_blacklisted ''rtlcss'' ''raw'' 9]"
proof -
  let ?cur = "new_entry (form ''raw'' True False)"
  have h1: "plugins later_blacklist_config = [demo_plugin ''custom'' []] @ demo_plugin ''rtlcss'' [] # []"
    by (simp add: later_blacklist_config_def demo_config_def)
  have h2: "list_all (\<lambda>q. \<not> blacklisted later_blacklist_config q (m_name (metadata ?cur))
                          \<and> \<not> supplies q (m_name (metadata ?cur)))
              [demo_plugin ''custom'' []]"
    by code_simp
  have h3: "blacklisted later_blacklist_config (demo_plugin ''rtlcss'' []) (m_name (metadata ?cur))"
    by code_simp
  have h4: "directive ?cur = Null" by (simp add: new_entry_def)
  note th = blacklisted_directive_is_never_run[OF h1 h2 h3 h4, of 9 "fresh []", THEN conjunct1]
  have c: "map_sum id (log \<circ> after)
          (comment_callback later_blacklist_config 9 ?cur (fresh []))
        = Inr [Warn_blacklisted ''rtlcss'' ''raw'' 9]"
    unfolding th by code_simp
  show ?thesis
    by (rule conjI[OF h1 conjI[OF h2 conjI[OF h3 c]]])
qed






text \<open>
  C9. The claim does not hold of the handlers as written. A comment that begins a
  directive no plugin knows is answered with the warning about an unsupported directive,
  and its entry, whose directive is undefined, is pushed; the gate skips blacklisted
  entries, which have no directive either, but not this one, and the next node it visits
  raises a TypeError when the gate reads \<open>expect\<close> of the entry's directive (line 37).
  A directive without end handler raises a TypeError as well, in the gate (line 44) when
  its entry was opened by a form that carries an end marker, and in the comment handler
  (line 102) when an end-only form closes it.
\<close>

theorem unsupported_directive_aborts_run:
  "map_sum id log
     (Comment_handler (demo_config [demo_plugin ''rtlcss'' []]) 9 [form ''bogus'' True False]
        (fresh []))
     = Inr [Warn_unsupported ''bogus'' 9]
   \<and> map_sum id (map (m_name \<circ> metadata) \<circ> stack)
       (Comment_handler (demo_config [demo_plugin ''rtlcss'' []]) 9 [form ''bogus'' True False]
          (fresh []))
     = Inr [''bogus'']
   \<and> map_sum id log unsupported_run = Inl Null_dereference
   \<and> map_sum id fst
       (shouldProcess 1 (fresh [open_entry (form ''ignore'' True True) no_end_directive]))
     = Inl Not_a_function
   \<and> map_sum id returned
       (comment_callback (demo_config [lean_plugin]) 9
          (open_entry (form ''ignore'' False True) no_end_directive) (fresh []))
     = Inl Not_a_function"
  by code_simp


section \<open>The declaration pipeline\<close>

lemma new_events_append: "log s' = log s @ evs \<Longrightarrow> new_events s s' = evs"
  by (simp add: new_events_def)

lemma apply_processor_log:
  "log (apply_processor u cfg pn i pr s) = log s @ [Call_processor pn (pr_name pr) i]"
  by (simp add: apply_processor_def Let_def split: prod.splits)

lemma run_processors_find:
  "run_processors u cfg pn i prs s
     = (case List.find (\<lambda>pr. pr_expr pr (matched_name cfg (nodes s i))) prs of
          None \<Rightarrow> s
        | Some pr \<Rightarrow> apply_processor u cfg pn i pr s)"
  by (induction prs) simp_all

lemma run_processors_first_match:
  assumes "list_all (\<lambda>q. \<not> pr_expr q (matched_name cfg (nodes s i))) pre"
    and "pr_expr pr (matched_name cfg (nodes s i))"
  shows "run_processors u cfg pn i (pre @ pr # post) s = apply_processor u cfg pn i pr s"
  using assms by (induction pre) simp_all

lemma run_plugins_append:
  "run_plugins u cfg i (ps1 @ ps2) s
     = (case run_plugins u cfg i ps1 s of
          Inl f \<Rightarrow> Inl f
        | Inr (stop, s1) \<Rightarrow> if stop then Inr (True, s1) else run_plugins u cfg i ps2 s1)"
proof (induction ps1 arbitrary: s)
  case Nil
  show ?case by simp
next
  case (Cons p ps1)
  show ?case
  proof (cases "run_value_directives u cfg (pl_name p) i (value_directives p) s")
    case (Inl f)
    then show ?thesis by simp
  next
    case (Inr r)
    obtain stop s1 where r: "r = (stop, s1)" by (cases r)
    with Inr Cons.IH show ?thesis by simp
  qed
qed

lemma decl_frame_refl: "decl_frame i s s"
  by (simp add: decl_frame_def)

lemma decl_frame_trans: "decl_frame i s s1 \<Longrightarrow> decl_frame i s1 s2 \<Longrightarrow> decl_frame i s s2"
  by (simp add: decl_frame_def)




lemma rvd_nomatch:
  assumes "\<not> regexDirective u (vd_name d) (tested_text (nodes s i))"
  shows "run_value_directives u cfg pn i (d # ds) s = run_value_directives u cfg pn i ds s"
  using assms by (simp add: Let_def)

lemma rvd_declined:
  assumes "regexDirective u (vd_name d) (tested_text (nodes s i))"
    and "vd_action d (nodes s i) = (False, n1)"
  shows "run_value_directives u cfg pn i (d # ds) s
           = run_value_directives u cfg pn i ds
               (s\<lparr>nodes := (nodes s)(i := n1), log := log s @ [Call_action pn (vd_name d) i False]\<rparr>)"
  using assms by (simp add: Let_def)

lemma rvd_accepted:
  assumes "regexDirective u (vd_name d) (tested_text (nodes s i))"
    and "vd_action d (nodes s i) = (True, n1)"
  shows "run_value_directives u cfg pn i (d # ds) s
           = (if clean cfg then
                (case clean_directive u (hasRawValue (nodes s i)) n1 of
                   Inl f \<Rightarrow> Inl f
                 | Inr n2 \<Rightarrow>
                     Inr (True, s\<lparr>nodes := (nodes s)(i := n2),
                                   log := log s @ [Call_action pn (vd_name d) i True],
                                   flipped := Suc (flipped s)\<rparr>))
              else Inr (True, s\<lparr>nodes := (nodes s)(i := n1),
                                 log := log s @ [Call_action pn (vd_name d) i True],
                                 flipped := Suc (flipped s)\<rparr>))"
  using assms by (simp add: Let_def split: sum.splits)

text \<open>
  The scan of the value directives of one plugin: every action before the end of the
  scan has declined; the scan ends the handler exactly after an action that accepted,
  with the counter one up.
\<close>

lemma run_value_directives_effect:
  assumes "run_value_directives u cfg pn i ds s = Inr (stop, s')"
  shows "decl_frame i s s'
       \<and> (if stop
          then flipped s' = Suc (flipped s)
               \<and> (\<exists>evs nm. log s' = log s @ evs @ [Call_action pn nm i True]
                      \<and> list_all declined_action evs)
          else flipped s' = flipped s
               \<and> (\<exists>evs. log s' = log s @ evs \<and> list_all declined_action evs))"
  using assms
proof (induction ds arbitrary: s)
  case Nil
  then have "stop = False" "s' = s" by simp_all
  then show ?case by (simp add: decl_frame_refl)
next
  case (Cons d ds)
  show ?case
  proof (cases "regexDirective u (vd_name d) (tested_text (nodes s i))")
    case False
    from Cons.prems rvd_nomatch[OF False] have "run_value_directives u cfg pn i ds s = Inr (stop, s')"
      by simp
    from Cons.IH[OF this] show ?thesis .
  next
    case True
    obtain ok n1 where a: "vd_action d (nodes s i) = (ok, n1)" by (cases "vd_action d (nodes s i)")
    show ?thesis
    proof (cases ok)
      case False
      define s1 where "s1 = s\<lparr>nodes := (nodes s)(i := n1),
                               log := log s @ [Call_action pn (vd_name d) i False]\<rparr>"
      from a False have a': "vd_action d (nodes s i) = (False, n1)" by simp
      from Cons.prems rvd_declined[OF True a']
      have "run_value_directives u cfg pn i ds s1 = Inr (stop, s')"
        by (simp add: s1_def)
      note ih0 = Cons.IH[OF this]
      note ih = ih0[THEN conjunct1] ih0[THEN conjunct2]
      have f1: "decl_frame i s s1" by (simp add: decl_frame_def s1_def)
      have l1: "log s1 = log s @ [Call_action pn (vd_name d) i False]" "flipped s1 = flipped s"
        by (simp_all add: s1_def)
      show ?thesis
      proof (cases stop)
        case True
        with ih(2) obtain evs nm where
          "flipped s' = Suc (flipped s1)" "log s' = log s1 @ evs @ [Call_action pn nm i True]"
          "list_all declined_action evs"
          by auto
        with l1 have "flipped s' = Suc (flipped s)"
          "log s' = log s @ (Call_action pn (vd_name d) i False # evs) @ [Call_action pn nm i True]"
          "list_all declined_action (Call_action pn (vd_name d) i False # evs)"
          by simp_all
        with True decl_frame_trans[OF f1 ih(1)] show ?thesis by metis
      next
        case False
        with ih(2) obtain evs where
          "flipped s' = flipped s1" "log s' = log s1 @ evs" "list_all declined_action evs"
          by auto
        with l1 have "flipped s' = flipped s"
          "log s' = log s @ (Call_action pn (vd_name d) i False # evs)"
          "list_all declined_action (Call_action pn (vd_name d) i False # evs)"
          by simp_all
        with False decl_frame_trans[OF f1 ih(1)] show ?thesis by metis
      qed
    next
      case ok: True
      from a ok have a': "vd_action d (nodes s i) = (True, n1)" by simp
      note eq = rvd_accepted[OF True a', of cfg pn ds]
      show ?thesis
      proof (cases "clean cfg")
        case no: False
        define s1 where "s1 = s\<lparr>nodes := (nodes s)(i := n1),
                               log := log s @ [Call_action pn (vd_name d) i True],
                               flipped := Suc (flipped s)\<rparr>"
        from Cons.prems eq no have "stop = True" "s' = s1" by (simp_all add: s1_def)
        moreover have "decl_frame i s s1" "flipped s1 = Suc (flipped s)"
          "log s1 = log s @ [] @ [Call_action pn (vd_name d) i True]"
          by (simp_all add: s1_def decl_frame_def)
        moreover have "list_all declined_action []" by simp
        ultimately show ?thesis by metis
      next
        case yes: True
        show ?thesis
        proof (cases "clean_directive u (hasRawValue (nodes s i)) n1")
          case (Inl f)
          with Cons.prems eq yes show ?thesis by simp
        next
          case (Inr n2)
          define s1 where "s1 = s\<lparr>nodes := (nodes s)(i := n2),
                               log := log s @ [Call_action pn (vd_name d) i True],
                               flipped := Suc (flipped s)\<rparr>"
          from Cons.prems eq yes Inr have "stop = True" "s' = s1" by (simp_all add: s1_def)
          moreover have "decl_frame i s s1" "flipped s1 = Suc (flipped s)"
            "log s1 = log s @ [] @ [Call_action pn (vd_name d) i True]"
            by (simp_all add: s1_def decl_frame_def)
          moreover have "list_all declined_action []" by simp
          ultimately show ?thesis by metis
        qed
      qed
    qed
  qed
qed





lemma rvd_append:
  "run_value_directives u cfg pn i (ds1 @ ds2) s
     = (case run_value_directives u cfg pn i ds1 s of
          Inl f \<Rightarrow> Inl f
        | Inr (stop, s1) \<Rightarrow> if stop then Inr (True, s1) else run_value_directives u cfg pn i ds2 s1)"
proof (induction ds1 arbitrary: s)
  case Nil
  show ?case by simp
next
  case (Cons d ds1)
  show ?case
  proof (cases "regexDirective u (vd_name d) (tested_text (nodes s i))")
    case False
    with Cons.IH[of s] show ?thesis by (simp add: rvd_nomatch)
  next
    case True
    obtain ok n1 where a: "vd_action d (nodes s i) = (ok, n1)" by (cases "vd_action d (nodes s i)")
    show ?thesis
    proof (cases ok)
      case False
      with a have a': "vd_action d (nodes s i) = (False, n1)" by simp
      show ?thesis
        unfolding append_Cons rvd_declined[OF True a'] by (rule Cons.IH)
    next
      case yes: True
      with a have a': "vd_action d (nodes s i) = (True, n1)" by simp
      show ?thesis
        unfolding append_Cons rvd_accepted[OF True a'] by (simp split: sum.splits)
    qed
  qed
qed

lemma declined_not_accepted: "declined_action ev \<Longrightarrow> \<not> accepted_action ev"
  by (cases ev) simp_all

lemma declined_none_accepted: "list_all declined_action evs \<Longrightarrow> \<not> list_ex accepted_action evs"
  by (induction evs) (simp_all add: declined_not_accepted)

lemma run_processors_log:
  "\<exists>evs. log (run_processors u cfg pn i prs s) = log s @ evs \<and> \<not> list_ex accepted_action evs"
proof (cases "List.find (\<lambda>pr. pr_expr pr (matched_name cfg (nodes s i))) prs")
  case None
  then show ?thesis by (simp add: run_processors_find)
next
  case (Some pr)
  then have "log (run_processors u cfg pn i prs s) = log s @ [Call_processor pn (pr_name pr) i]"
    by (simp add: run_processors_find apply_processor_log)
  then show ?thesis by (intro exI[of _ "[Call_processor pn (pr_name pr) i]"]) simp
qed

text \<open>
  The loop over the plugins reports that the handler has returned exactly when the
  action of a value directive has accepted.
\<close>

lemma run_plugins_verdict:
  "run_plugins u cfg i ps s = Inr (stop, s') \<Longrightarrow>
     \<exists>evs. log s' = log s @ evs \<and> stop = list_ex accepted_action evs"
proof (induction ps arbitrary: s)
  case Nil
  then show ?case by simp
next
  case (Cons p ps)
  from Cons.prems obtain st s1 where
    v: "run_value_directives u cfg (pl_name p) i (value_directives p) s = Inr (st, s1)"
    by (cases "run_value_directives u cfg (pl_name p) i (value_directives p) s") auto
  note eff = run_value_directives_effect[OF v, THEN conjunct2]
  show ?case
  proof (cases st)
    case True
    with Cons.prems v have r: "stop = True" "s' = s1" by simp_all
    from eff True obtain evs nm where
      "log s1 = log s @ evs @ [Call_action (pl_name p) nm i True]"
      by auto
    with r show ?thesis
      by (intro exI[of _ "evs @ [Call_action (pl_name p) nm i True]"]) simp
  next
    case False
    let ?s2 = "run_processors u cfg (pl_name p) i (processors p) s1"
    from eff False obtain evs where
      e1: "log s1 = log s @ evs" "list_all declined_action evs"
      by auto
    from run_processors_log[of u cfg "pl_name p" i "processors p" s1] obtain pe where
      e2: "log ?s2 = log s1 @ pe" "\<not> list_ex accepted_action pe"
      by blast
    from Cons.prems v False have "run_plugins u cfg i ps ?s2 = Inr (stop, s')" by simp
    from Cons.IH[OF this] obtain e3 where
      e3: "log s' = log ?s2 @ e3" "stop = list_ex accepted_action e3"
      by blast
    from e1 e2 e3 declined_none_accepted[OF e1(2)] show ?thesis
      by (intro exI[of _ "evs @ pe @ e3"]) simp
  qed
qed

lemma run_plugins_processors_only:
  "list_all (\<lambda>q. value_directives q = []) ps \<Longrightarrow>
     run_plugins u cfg i ps s
       = Inr (False, foldl (\<lambda>t q. run_processors u cfg (pl_name q) i (processors q) t) s ps)"
  by (induction ps arbitrary: s) simp_all

section \<open>Claims about the declaration handler\<close>

text \<open>
  C1 as stated fails: the \<open>break\<close> after a matching processor leaves the loop over the
  processors of one plugin, and the loop over the plugins goes on. With two plugins that
  each hold a processor for \<open>left\<close> and \<open>right\<close>, the declaration \<open>left: 1px\<close> is handled
  by both: it is flipped twice and ends as it began.
\<close>

theorem later_plugin_processor_counterexample:
  "map_sum id log
     (Declaration demo_util (demo_config [demo_plugin ''first'' [], demo_plugin ''second'' []]) 6 (fresh []))
     = Inr [Call_processor ''first'' ''left'' 6, Call_processor ''second'' ''left'' 6]
   \<and> map_sum id flipped
       (Declaration demo_util (demo_config [demo_plugin ''first'' [], demo_plugin ''second'' []]) 6 (fresh []))
     = Inr 2
   \<and> map_sum id (prop_of 6)
       (Declaration demo_util (demo_config [demo_plugin ''first'' [], demo_plugin ''second'' []]) 6 (fresh []))
     = Inr ''left''"
  by code_simp

text \<open>
  C1, amended. Within one plugin only the first processor, in the plugin's order, whose
  pattern matches the property name (after alias resolution) executes: the processors
  run for a plugin are that one, or none when no pattern matches. A match does not end
  the loop over the plugins: when the value directives of a plugin have not ended the
  handler, the plugins that follow are consulted on the declaration as the processors of
  that plugin left it, so that plugins without value directives all run their first
  matching processor, one after the other. Only a value directive whose action accepted
  ends the pipeline.
\<close>

theorem one_processor_per_plugin:
  "run_processors u cfg pn i prs s
     = (case List.find (\<lambda>pr. pr_expr pr (matched_name cfg (nodes s i))) prs of
          None \<Rightarrow> s
        | Some pr \<Rightarrow> apply_processor u cfg pn i pr s)
   \<and> processor_calls (new_events s (run_processors u cfg pn i prs s))
     = (case List.find (\<lambda>pr. pr_expr pr (matched_name cfg (nodes s i))) prs of
          None \<Rightarrow> []
        | Some pr \<Rightarrow> [(pn, pr_name pr)])
   \<and> run_plugins u cfg i (ps1 @ ps2) s
     = (case run_plugins u cfg i ps1 s of
          Inl f \<Rightarrow> Inl f
        | Inr (stop, s1) \<Rightarrow> if stop then Inr (True, s1) else run_plugins u cfg i ps2 s1)
   \<and> (run_value_directives u cfg (pl_name p) i (value_directives p) s = Inr (False, sv) \<longrightarrow>
        run_plugins u cfg i (p # ps) s
          = run_plugins u cfg i ps (run_processors u cfg (pl_name p) i (processors p) sv))
   \<and> (list_all (\<lambda>q. value_directives q = []) ps \<longrightarrow>
        run_plugins u cfg i ps s
          = Inr (False, foldl (\<lambda>t q. run_processors u cfg (pl_name q) i (processors q) t) s ps))
   \<and> (run_plugins u cfg i ps s = Inr (ended, s') \<longrightarrow>
        ended = list_ex accepted_action (new_events s s'))"
proof -
  have 1: "run_processors u cfg pn i prs s
     = (case List.find (\<lambda>pr. pr_expr pr (matched_name cfg (nodes s i))) prs of
          None \<Rightarrow> s
        | Some pr \<Rightarrow> apply_processor u cfg pn i pr s)"
    by (rule run_processors_find)
  have 2: "processor_calls (new_events s (run_processors u cfg pn i prs s))
     = (case List.find (\<lambda>pr. pr_expr pr (matched_name cfg (nodes s i))) prs of
          None \<Rightarrow> []
        | Some pr \<Rightarrow> [(pn, pr_name pr)])"
  proof (cases "List.find (\<lambda>pr. pr_expr pr (matched_name cfg (nodes s i))) prs")
    case None
    then show ?thesis by (simp add: run_processors_find new_events_def)
  next
    case (Some pr)
    then show ?thesis
      by (simp add: run_processors_find new_events_append[OF apply_processor_log])
  qed
  have 3: "run_plugins u cfg i (ps1 @ ps2) s
     = (case run_plugins u cfg i ps1 s of
          Inl f \<Rightarrow> Inl f
        | Inr (stop, s1) \<Rightarrow> if stop then Inr (True, s1) else run_plugins u cfg i ps2 s1)"
    by (rule run_plugins_append)
  have 4: "run_value_directives u cfg (pl_name p) i (value_directives p) s = Inr (False, sv) \<longrightarrow>
        run_plugins u cfg i (p # ps) s
          = run_plugins u cfg i ps (run_processors u cfg (pl_name p) i (processors p) sv)"
    by simp
  have 5: "list_all (\<lambda>q. value_directives q = []) ps \<longrightarrow>
        run_plugins u cfg i ps s
          = Inr (False, foldl (\<lambda>t q. run_processors u cfg (pl_name q) i (processors q) t) s ps)"
    using run_plugins_processors_only by blast
  have 6: "run_plugins u cfg i ps s = Inr (ended, s') \<longrightarrow>
        ended = list_ex accepted_action (new_events s s')"
  proof
    assume "run_plugins u cfg i ps s = Inr (ended, s')"
    from run_plugins_verdict[OF this] obtain evs where
      "log s' = log s @ evs" "ended = list_ex accepted_action evs"
      by blast
    then show "ended = list_ex accepted_action (new_events s s')"
      by (simp add: new_events_append)
  qed
  from 1 2 3 4 5 6 show ?thesis by (intro conjI)
qed

theorem one_processor_per_plugin_witness:
  "processor_calls
     (new_events (fresh [])
        (run_processors demo_util (demo_config []) ''rtlcss'' 6 [flip_processor, flip_processor] (fresh [])))
     = [(''rtlcss'', ''left'')]
   \<and> list_all (\<lambda>q. value_directives q = []) [demo_plugin ''first'' [], demo_plugin ''second'' []]
   \<and> map_sum id (\<lambda>r. (fst r, processor_calls (log (snd r)), prop_of 6 (snd r), flipped (snd r)))
       (run_plugins demo_util (demo_config []) 6 [demo_plugin ''first'' [], demo_plugin ''second'' []]
          (fresh []))
     = Inr (False, [(''first'', ''left''), (''second'', ''left'')], ''left'', 2)
   \<and> run_value_directives demo_util (demo_config []) (pl_name (demo_plugin ''first'' [])) 6
        (value_directives (demo_plugin ''first'' [])) (fresh []) = Inr (False, fresh [])
   \<and> run_plugins demo_util (demo_config []) 6 (demo_plugin ''first'' [] # [demo_plugin ''second'' []])
        (fresh [])
     = run_plugins demo_util (demo_config []) 6 [demo_plugin ''second'' []]
         (run_processors demo_util (demo_config []) (pl_name (demo_plugin ''first'' [])) 6
            (processors (demo_plugin ''first'' [])) (fresh []))
   \<and> (\<exists>s'. run_plugins demo_util staged_config 7 (plugins staged_config) (fresh []) = Inr (True, s')
          \<and> True = list_ex accepted_action (new_events (fresh []) s'))"
proof -
  note th = one_processor_per_plugin[of demo_util "demo_config []" "''rtlcss''" 6
      "[flip_processor, flip_processor]" "fresh []", THEN conjunct2, THEN conjunct1]
  have "(case List.find (\<lambda>pr. pr_expr pr (matched_name (demo_config []) (nodes (fresh []) 6)))
                [flip_processor, flip_processor] of
           None \<Rightarrow> []
         | Some pr \<Rightarrow> [(''rtlcss'', pr_name pr)]) = [(''rtlcss'', ''left'')]"
    by code_simp
  with th have a: "processor_calls
     (new_events (fresh [])
        (run_processors demo_util (demo_config []) ''rtlcss'' 6 [flip_processor, flip_processor] (fresh [])))
     = [(''rtlcss'', ''left'')]"
    by (rule trans)
  have h: "list_all (\<lambda>q. value_directives q = []) [demo_plugin ''first'' [], demo_plugin ''second'' []]"
    by (simp add: demo_plugin_def)
  note all = one_processor_per_plugin[where u = demo_util and cfg = "demo_config []" and i = 6
      and ps = "[demo_plugin ''first'' [], demo_plugin ''second'' []]" and s = "fresh []",
      THEN conjunct2, THEN conjunct2, THEN conjunct2, THEN conjunct2, THEN conjunct1, THEN mp, OF h]
  have b: "map_sum id (\<lambda>r. (fst r, processor_calls (log (snd r)), prop_of 6 (snd r), flipped (snd r)))
       (run_plugins demo_util (demo_config []) 6 [demo_plugin ''first'' [], demo_plugin ''second'' []]
          (fresh []))
     = Inr (False, [(''first'', ''left''), (''second'', ''left'')], ''left'', 2)"
    unfolding all by code_simp
  have v: "run_value_directives demo_util (demo_config []) (pl_name (demo_plugin ''first'' [])) 6
        (value_directives (demo_plugin ''first'' [])) (fresh []) = Inr (False, fresh [])"
    by (simp add: demo_plugin_def)
  note c = one_processor_per_plugin[where u = demo_util and cfg = "demo_config []" and i = 6
      and p = "demo_plugin ''first'' []" and ps = "[demo_plugin ''second'' []]" and s = "fresh []"
      and sv = "fresh []",
      THEN conjunct2, THEN conjunct2, THEN conjunct2, THEN conjunct1, THEN mp, OF v]
  define t where
    "t = snd (projr (run_plugins demo_util staged_config 7 (plugins staged_config) (fresh [])))"
  have "\<not> isl (run_plugins demo_util staged_config 7 (plugins staged_config) (fresh []))"
    "fst (projr (run_plugins demo_util staged_config 7 (plugins staged_config) (fresh []))) = True"
    by code_simp+
  then have r: "run_plugins demo_util staged_config 7 (plugins staged_config) (fresh []) = Inr (True, t)"
    unfolding t_def by (rule Inr_pairI)
  note e = one_processor_per_plugin[where u = demo_util and cfg = staged_config and i = 7
      and ps = "plugins staged_config" and s = "fresh []" and ended = True and s' = t,
      THEN conjunct2, THEN conjunct2, THEN conjunct2, THEN conjunct2, THEN conjunct2, THEN mp, OF r]
  have d: "\<exists>s'. run_plugins demo_util staged_config 7 (plugins staged_config) (fresh []) = Inr (True, s')
          \<and> True = list_ex accepted_action (new_events (fresh []) s')"
    by (rule exI[of _ t], rule conjI[OF r e])
  show ?thesis
    by (rule conjI[OF a conjI[OF h conjI[OF b conjI[OF v conjI[OF c d]]]]])
qed


text \<open>
  C3 as stated fails: a value directive whose pattern matches the tested text but whose
  action declines does not keep the processors away. The declaration
  \<open>left: 1px /*rtl:ignore*/\<close> matches the directive \<open>ignore\<close>; its action answers
  false, and the processor of the same plugin runs next.
\<close>

theorem declined_directive_counterexample:
  "regexDirective demo_util (vd_name declining) (tested_text (demo_nodes 7))
   \<and> map_sum id log
       (Declaration demo_util (demo_config [demo_plugin ''rtlcss'' [declining]]) 7 (fresh []))
     = Inr [Call_action ''rtlcss'' ''ignore'' 7 False, Call_processor ''rtlcss'' ''left'' 7]"
  by code_simp

text \<open>
  C3, amended. For an eligible declaration, take the first value directive whose pattern
  matches the tested text and whose action is reached: no earlier plugin and no earlier
  directive of its plugin has ended the handler. When its action accepts, the handler
  returns at once with the flip counter incremented by one: the state it returns is the
  one the directive found, with the node as the action (and the cleaning) left it and
  the call of the action as last event, so no processor of that plugin or of a later
  plugin runs and no auto-rename follows. When its action declines, the match does not
  preempt the processors: the scan goes on with the value directives that follow, and
  when none of them accepts, with the processors of the plugin and then the plugins
  that follow. The actions called before in the plugin have all declined and the counter
  stands as the earlier plugins left it.
\<close>

theorem value_directive_action_decides:
  assumes "shouldProcess i s = Inr (True, s0)"
    and "plugins cfg = pre @ p # post"
    and "run_plugins u cfg i pre s0 = Inr (False, s1)"
    and "value_directives p = dpre @ d # dpost"
    and "run_value_directives u cfg (pl_name p) i dpre s1 = Inr (False, sd)"
    and "regexDirective u (vd_name d) (tested_text (nodes sd i))"
    and "vd_action d (nodes sd i) = (ok, n1)"
  shows "(ok \<longrightarrow>
            Declaration u cfg i s
              = (if clean cfg then
                   (case clean_directive u (hasRawValue (nodes sd i)) n1 of
                      Inl f \<Rightarrow> Inl f
                    | Inr n2 \<Rightarrow>
                        Inr (sd\<lparr>nodes := (nodes sd)(i := n2),
                                log := log sd @ [Call_action (pl_name p) (vd_name d) i True],
                                flipped := Suc (flipped sd)\<rparr>))
                 else Inr (sd\<lparr>nodes := (nodes sd)(i := n1),
                              log := log sd @ [Call_action (pl_name p) (vd_name d) i True],
                              flipped := Suc (flipped sd)\<rparr>)))
       \<and> (\<not> ok \<longrightarrow>
            run_plugins u cfg i (plugins cfg) s0
              = (case run_value_directives u cfg (pl_name p) i dpost
                        (sd\<lparr>nodes := (nodes sd)(i := n1),
                            log := log sd @ [Call_action (pl_name p) (vd_name d) i False]\<rparr>) of
                   Inl f \<Rightarrow> Inl f
                 | Inr (ended, s2) \<Rightarrow>
                     if ended then Inr (True, s2)
                     else run_plugins u cfg i post
                            (run_processors u cfg (pl_name p) i (processors p) s2)))
       \<and> (\<not> ok \<and> dpost = [] \<longrightarrow>
            run_plugins u cfg i (plugins cfg) s0
              = run_plugins u cfg i post
                  (run_processors u cfg (pl_name p) i (processors p)
                     (sd\<lparr>nodes := (nodes sd)(i := n1),
                         log := log sd @ [Call_action (pl_name p) (vd_name d) i False]\<rparr>)))
       \<and> Declaration u cfg i s
           = (case run_plugins u cfg i (plugins cfg) s0 of
                Inl f \<Rightarrow> Inl f
              | Inr (ended, s2) \<Rightarrow> if ended then Inr s2 else auto_rename u cfg i s2)
       \<and> flipped sd = flipped s1
       \<and> list_all declined_action (new_events s1 sd)"
proof -
  let ?pn = "pl_name p"
  let ?declined = "sd\<lparr>nodes := (nodes sd)(i := n1),
                      log := log sd @ [Call_action ?pn (vd_name d) i False]\<rparr>"
  have scan: "run_value_directives u cfg ?pn i (value_directives p) s1
                = run_value_directives u cfg ?pn i (d # dpost) sd"
    using assms(4,5) by (simp add: rvd_append)
  have loop: "run_plugins u cfg i (plugins cfg) s0 = run_plugins u cfg i (p # post) s1"
    using assms(2,3) by (simp add: run_plugins_append)
  have handler: "Declaration u cfg i s
           = (case run_plugins u cfg i (plugins cfg) s0 of
                Inl f \<Rightarrow> Inl f
              | Inr (ended, s2) \<Rightarrow> if ended then Inr s2 else auto_rename u cfg i s2)"
    using assms(1) by (simp add: Declaration_def)
  have accepted: "Declaration u cfg i s
              = (if clean cfg then
                   (case clean_directive u (hasRawValue (nodes sd i)) n1 of
                      Inl f \<Rightarrow> Inl f
                    | Inr n2 \<Rightarrow>
                        Inr (sd\<lparr>nodes := (nodes sd)(i := n2),
                                log := log sd @ [Call_action ?pn (vd_name d) i True],
                                flipped := Suc (flipped sd)\<rparr>))
                 else Inr (sd\<lparr>nodes := (nodes sd)(i := n1),
                              log := log sd @ [Call_action ?pn (vd_name d) i True],
                              flipped := Suc (flipped sd)\<rparr>))"
    if ok
  proof -
    from that assms(7) have a: "vd_action d (nodes sd i) = (True, n1)" by simp
    show ?thesis
      unfolding handler loop run_plugins.simps scan rvd_accepted[OF assms(6) a]
      by (simp split: sum.splits)
  qed
  have declined: "run_plugins u cfg i (plugins cfg) s0
              = (case run_value_directives u cfg ?pn i dpost ?declined of
                   Inl f \<Rightarrow> Inl f
                 | Inr (ended, s2) \<Rightarrow>
                     if ended then Inr (True, s2)
                     else run_plugins u cfg i post (run_processors u cfg ?pn i (processors p) s2))"
    if "\<not> ok"
  proof -
    from that assms(7) have a: "vd_action d (nodes sd i) = (False, n1)" by simp
    show ?thesis
      unfolding loop run_plugins.simps scan rvd_declined[OF assms(6) a] by (rule refl)
  qed
  have last: "run_plugins u cfg i (plugins cfg) s0
              = run_plugins u cfg i post (run_processors u cfg ?pn i (processors p) ?declined)"
    if "\<not> ok" "dpost = []"
    using declined[OF that(1)] that(2) by simp
  from run_value_directives_effect[OF assms(5)] obtain evs where
    "flipped sd = flipped s1" "log sd = log s1 @ evs" "list_all declined_action evs"
    by auto
  then have before: "flipped sd = flipped s1" "list_all declined_action (new_events s1 sd)"
    by (simp_all add: new_events_append)
  from accepted declined last handler before show ?thesis by (intro conjI impI) simp_all
qed

theorem value_directive_action_decides_witness:
  "\<exists>s0 s1 sd.
     shouldProcess 7 (fresh []) = Inr (True, s0)
     \<and> plugins staged_config = [demo_plugin ''first'' []] @ staged_plugin # []
     \<and> run_plugins demo_util staged_config 7 [demo_plugin ''first'' []] s0 = Inr (False, s1)
     \<and> value_directives staged_plugin = [declining] @ accepting # []
     \<and> run_value_directives demo_util staged_config (pl_name staged_plugin) 7 [declining] s1
         = Inr (False, sd)
     \<and> regexDirective demo_util (vd_name accepting) (tested_text (nodes sd 7))
     \<and> vd_action accepting (nodes sd 7) = (True, nodes sd 7)
     \<and> map_sum id (\<lambda>t. (log t, flipped t, prop_of 7 t)) (Declaration demo_util staged_config 7 (fresh []))
         = Inr ([Call_processor ''first'' ''left'' 7, Call_action ''rtlcss'' ''ignore'' 7 False,
                 Call_action ''rtlcss'' ''ignore'' 7 True], 2, ''right'')
     \<and> flipped sd = flipped s1
     \<and> list_all declined_action (new_events s1 sd)
     \<and> plugins (demo_config [demo_plugin ''rtlcss'' [declining]])
         = [] @ demo_plugin ''rtlcss'' [declining] # []
     \<and> value_directives (demo_plugin ''rtlcss'' [declining]) = [] @ declining # []
     \<and> regexDirective demo_util (vd_name declining) (tested_text (nodes s0 7))
     \<and> vd_action declining (nodes s0 7) = (False, nodes s0 7)
     \<and> map_sum id (\<lambda>r. (fst r, log (snd r), prop_of 7 (snd r)))
         (run_plugins demo_util (demo_config [demo_plugin ''rtlcss'' [declining]]) 7
            (plugins (demo_config [demo_plugin ''rtlcss'' [declining]])) s0)
         = Inr (False, [Call_action ''rtlcss'' ''ignore'' 7 False, Call_processor ''rtlcss'' ''left'' 7],
                ''right'')"
proof -
  let ?lone = "demo_plugin ''rtlcss'' [declining]"
  let ?cfg = "demo_config [?lone]"
  define s0 where "s0 = snd (projr (shouldProcess 7 (fresh [])))"
  define s1 where
    "s1 = snd (projr (run_plugins demo_util staged_config 7 [demo_plugin ''first'' []] s0))"
  define sd where
    "sd = snd (projr (run_value_directives demo_util staged_config (pl_name staged_plugin) 7
                        [declining] s1))"
  have "\<not> isl (shouldProcess 7 (fresh []))" "fst (projr (shouldProcess 7 (fresh []))) = True"
    by code_simp+
  then have h0: "shouldProcess 7 (fresh []) = Inr (True, s0)"
    unfolding s0_def by (rule Inr_pairI)
  have hp: "plugins staged_config = [demo_plugin ''first'' []] @ staged_plugin # []"
    by (simp add: staged_config_def demo_config_def)
  have "\<not> isl (run_plugins demo_util staged_config 7 [demo_plugin ''first'' []] s0)"
    "fst (projr (run_plugins demo_util staged_config 7 [demo_plugin ''first'' []] s0)) = False"
    unfolding s0_def by code_simp+
  then have h1: "run_plugins demo_util staged_config 7 [demo_plugin ''first'' []] s0 = Inr (False, s1)"
    unfolding s1_def by (rule Inr_pairI)
  have hd: "value_directives staged_plugin = [declining] @ accepting # []"
    by (simp add: staged_plugin_def demo_plugin_def)
  have "\<not> isl (run_value_directives demo_util staged_config (pl_name staged_plugin) 7 [declining] s1)"
    "fst (projr (run_value_directives demo_util staged_config (pl_name staged_plugin) 7
                   [declining] s1)) = False"
    unfolding s1_def s0_def by code_simp+
  then have h2: "run_value_directives demo_util staged_config (pl_name staged_plugin) 7 [declining] s1
                   = Inr (False, sd)"
    unfolding sd_def by (rule Inr_pairI)
  have h3: "regexDirective demo_util (vd_name accepting) (tested_text (nodes sd 7))"
    unfolding sd_def s1_def s0_def by code_simp
  have h4: "vd_action accepting (nodes sd 7) = (True, nodes sd 7)"
    by (simp add: accepting_def)
  note th = value_directive_action_decides[OF h0 hp h1 hd h2 h3 h4]
  note eq = th[THEN conjunct1, THEN mp, OF TrueI]
  have a: "map_sum id (\<lambda>t. (log t, flipped t, prop_of 7 t))
             (Declaration demo_util staged_config 7 (fresh []))
         = Inr ([Call_processor ''first'' ''left'' 7, Call_action ''rtlcss'' ''ignore'' 7 False,
                 Call_action ''rtlcss'' ''ignore'' 7 True], 2, ''right'')"
    unfolding eq sd_def s1_def s0_def by code_simp
  have gp: "plugins ?cfg = [] @ ?lone # []" by (simp add: demo_config_def)
  have g1: "run_plugins demo_util ?cfg 7 [] s0 = Inr (False, s0)" by simp
  have gd: "value_directives ?lone = [] @ declining # []" by (simp add: demo_plugin_def)
  have g2: "run_value_directives demo_util ?cfg (pl_name ?lone) 7 [] s0 = Inr (False, s0)" by simp
  have g3: "regexDirective demo_util (vd_name declining) (tested_text (nodes s0 7))"
    unfolding s0_def by code_simp
  have g4: "vd_action declining (nodes s0 7) = (False, nodes s0 7)"
    by (simp add: declining_def)
  have nb: "\<not> False \<and> ([]::value_directive list) = []" by simp
  note tg = value_directive_action_decides[OF h0 gp g1 gd g2 g3 g4]
  note eg = tg[THEN conjunct2, THEN conjunct2, THEN conjunct1, THEN mp, OF nb]
  have b: "map_sum id (\<lambda>r. (fst r, log (snd r), prop_of 7 (snd r)))
         (run_plugins demo_util ?cfg 7 (plugins ?cfg) s0)
         = Inr (False, [Call_action ''rtlcss'' ''ignore'' 7 False, Call_processor ''rtlcss'' ''left'' 7],
                ''right'')"
    unfolding eg s0_def by code_simp
  show ?thesis
  proof (rule exI[of _ s0], rule exI[of _ s1], rule exI[of _ sd], intro conjI)
    show "shouldProcess 7 (fresh []) = Inr (True, s0)" by (rule h0)
    show "plugins staged_config = [demo_plugin ''first'' []] @ staged_plugin # []" by (rule hp)
    show "run_plugins demo_util staged_config 7 [demo_plugin ''first'' []] s0 = Inr (False, s1)"
      by (rule h1)
    show "value_directives staged_plugin = [declining] @ accepting # []" by (rule hd)
    show "run_value_directives demo_util staged_config (pl_name staged_plugin) 7 [declining] s1
            = Inr (False, sd)"
      by (rule h2)
    show "regexDirective demo_util (vd_name accepting) (tested_text (nodes sd 7))" by (rule h3)
    show "vd_action accepting (nodes sd 7) = (True, nodes sd 7)" by (rule h4)
    show "map_sum id (\<lambda>t. (log t, flipped t, prop_of 7 t))
             (Declaration demo_util staged_config 7 (fresh []))
         = Inr ([Call_processor ''first'' ''left'' 7, Call_action ''rtlcss'' ''ignore'' 7 False,
                 Call_action ''rtlcss'' ''ignore'' 7 True], 2, ''right'')"
      by (rule a)
    show "flipped sd = flipped s1"
      by (rule th[THEN conjunct2, THEN conjunct2, THEN conjunct2, THEN conjunct2, THEN conjunct1])
    show "list_all declined_action (new_events s1 sd)"
      by (rule th[THEN conjunct2, THEN conjunct2, THEN conjunct2, THEN conjunct2, THEN conjunct2])
    show "plugins ?cfg = [] @ ?lone # []" by (rule gp)
    show "value_directives ?lone = [] @ declining # []" by (rule gd)
    show "regexDirective demo_util (vd_name declining) (tested_text (nodes s0 7))" by (rule g3)
    show "vd_action declining (nodes s0 7) = (False, nodes s0 7)" by (rule g4)
    show "map_sum id (\<lambda>r. (fst r, log (snd r), prop_of 7 (snd r)))
         (run_plugins demo_util ?cfg 7 (plugins ?cfg) s0)
         = Inr (False, [Call_action ''rtlcss'' ''ignore'' 7 False, Call_processor ''rtlcss'' ''left'' 7],
                ''right'')"
      by (rule b)
  qed
qed


text \<open>
  C8 as stated fails: when the alias table holds an entry for the property, a returned
  property that differs from the original does not count as a change. For \<open>start: 1px\<close>
  with \<open>start\<close> aliased to \<open>left\<close>, the processor returns the property \<open>right\<close> and the
  same value; nothing is written back and the counter stays at zero.
\<close>

theorem aliased_property_counterexample:
  "fst (processor_change demo_util alias_config flip_processor (demo_nodes 8)) = ''right''
   \<and> map_sum id log (Declaration demo_util alias_config 8 (fresh []))
     = Inr [Call_processor ''rtlcss'' ''left'' 8]
   \<and> map_sum id (prop_of 8) (Declaration demo_util alias_config 8 (fresh [])) = Inr ''start''
   \<and> map_sum id flipped (Declaration demo_util alias_config 8 (fresh [])) = Inr 0"
  by code_simp

text \<open>
  C8, amended. For every declaration handled by the first matching processor of a
  plugin, the value handed back is the processor's value with the comments that were
  set aside reinserted, and property and value are both written back, with the flip
  counter incremented by one, if and only if the returned property differs from the
  original while no alias applies to it, or the returned value with its comments
  restored differs from the original working value; otherwise the declaration and the
  counter stay as they were.
\<close>

theorem processor_write_back:
  assumes "prs = pre @ pr # post"
    and "list_all (\<lambda>q. \<not> pr_expr q (matched_name cfg (nodes s i))) pre"
    and "pr_expr pr (matched_name cfg (nodes s i))"
  shows "let n = nodes s i;
             st = pre_swap u cfg (saveComments u (working_value n));
             ret = pr_action pr (d_prop n) (cs_value st);
             v = restoreComments u (st\<lparr>cs_value := snd ret\<rparr>);
             changed = ((alias_of cfg (d_prop n) = None \<and> fst ret \<noteq> d_prop n) \<or> v \<noteq> working_value n);
             s' = run_processors u cfg pn i prs s
         in nodes s' i = (if changed then n\<lparr>d_prop := fst ret, d_value := v\<rparr> else n)
            \<and> flipped s' = (if changed then Suc (flipped s) else flipped s)"
proof -
  from assms have "run_processors u cfg pn i prs s = apply_processor u cfg pn i pr s"
    by (simp add: run_processors_first_match)
  then show ?thesis
    by (simp add: apply_processor_def processor_change_def Let_def split: prod.splits)
qed

theorem processor_write_back_witness:
  "[flip_processor] = [] @ flip_processor # []
   \<and> list_all (\<lambda>q. \<not> pr_expr q (matched_name (demo_config []) (nodes (fresh []) 6))) []
   \<and> pr_expr flip_processor (matched_name (demo_config []) (nodes (fresh []) 6))
   \<and> flipped (run_processors demo_util (demo_config []) ''rtlcss'' 6 [flip_processor] (fresh [])) = 1
   \<and> d_prop (nodes (run_processors demo_util (demo_config []) ''rtlcss'' 6 [flip_processor] (fresh [])) 6)
       = ''right''"
proof -
  have h1: "[flip_processor] = [] @ flip_processor # []" by simp
  have h2: "list_all (\<lambda>q. \<not> pr_expr q (matched_name (demo_config []) (nodes (fresh []) 6))) []"
    by simp
  have h3: "pr_expr flip_processor (matched_name (demo_config []) (nodes (fresh []) 6))"
    by code_simp
  note th = processor_write_back[OF h1 h2 h3, of demo_util "''rtlcss''", unfolded Let_def]
  have c1: "flipped (run_processors demo_util (demo_config []) ''rtlcss'' 6 [flip_processor] (fresh [])) = 1"
    unfolding th[THEN conjunct2] by code_simp
  have c2: "d_prop (nodes (run_processors demo_util (demo_config []) ''rtlcss'' 6 [flip_processor] (fresh [])) 6)
       = ''right''"
    unfolding th[THEN conjunct1] by code_simp
  show ?thesis
    by (rule conjI[OF h1 conjI[OF h2 conjI[OF h3 conjI[OF c1 c2]]]])
qed



text \<open>
  C2, on the code as it is. Two sibling rules \<open>.left\<close> and \<open>.right\<close>, each with one
  unflipped declaration, processed under strict auto-rename: the selectors are swapped,
  but the pending entry of the first rule is still in the table when the document ends,
  and the skipped-rename warning is emitted for that rule.
\<close>

theorem strict_pair_keeps_pending_entry:
  "map_sum id (selector_of 1) strict_pair_run = Inr ''.right''
   \<and> map_sum id (selector_of 2) strict_pair_run = Inr ''.left''
   \<and> map_sum id toBeRenamed strict_pair_run = Inr [(''.left'', 1)]
   \<and> map_sum id log strict_pair_run = Inr [Warn_rename_skipped 1, Call_post 0]"
  by code_simp


end
